theory Spec2Isabelle
  imports Main
begin

section \<open>Identifiers, Python errors and the identifier mapping\<close>

text \<open>
  Embedding of \<^verbatim>\<open>cytomineprojectmigrator/importer.py\<close>. Server identifiers are
  natural numbers. The exceptions the importer can raise are values of \<open>py_error\<close>:
  a missing dictionary key (\<open>KeyError\<close> for \<^verbatim>\<open>self.id_mapping\<close>, \<open>KeyErrorName\<close> for
  the file-name dictionary of \<^verbatim>\<open>import_images\<close>), \<^verbatim>\<open>pop()\<close> or \<^verbatim>\<open>[0]\<close> on an empty
  list, iteration over \<^verbatim>\<open>None\<close> or a path join on \<^verbatim>\<open>None\<close>, and attribute access on
  \<^verbatim>\<open>None\<close>.
\<close>

type_synonym ident = nat

text \<open>
  The snapshot is read with \<^verbatim>\<open>json.load\<close> and the target through the client's JSON
  responses, so every name is a Python 3 \<^verbatim>\<open>str\<close>: a sequence of Unicode code points.
  \<open>str_of\<close> is the \<^verbatim>\<open>str\<close> of an ASCII literal of the source.
\<close>

type_synonym py_string = "nat list"

definition str_of :: "string \<Rightarrow> py_string" where
  "str_of s = map of_char s"

declare str_of_def [simp]

datatype py_error = KeyError ident | KeyErrorName py_string | IndexError | TypeError
  | AttributeError

text \<open>
  \<^verbatim>\<open>self.id_mapping = {}\<close>: one dictionary for every entity type, keyed by the origin
  identifier alone. \<open>getitem\<close> is \<^verbatim>\<open>self.id_mapping[k]\<close>, \<open>setitem\<close> is
  \<^verbatim>\<open>self.id_mapping[k] = v\<close>.
\<close>

type_synonym id_mapping = "ident \<rightharpoonup> ident"

definition id_mapping_init :: id_mapping where
  "id_mapping_init = Map.empty"

definition getitem :: "id_mapping \<Rightarrow> ident \<Rightarrow> py_error + ident" where
  "getitem m k = (case m k of None \<Rightarrow> Inl (KeyError k) | Some v \<Rightarrow> Inr v)"

definition setitem :: "id_mapping \<Rightarrow> ident \<Rightarrow> ident \<Rightarrow> id_mapping" where
  "setitem m k v = m(k \<mapsto> v)"

text \<open>A sequence of dictionary writes, oldest first.\<close>

fun setitems :: "id_mapping \<Rightarrow> (ident \<times> ident) list \<Rightarrow> id_mapping" where
  "setitems m [] = m"
| "setitems m ((k, v) # kvs) = setitems (setitem m k v) kvs"

text \<open>\<^verbatim>\<open>[self.id_mapping[t] for t in ts]\<close>: the first missing key raises.\<close>

fun getitems :: "id_mapping \<Rightarrow> ident list \<Rightarrow> py_error + ident list" where
  "getitems m [] = Inr []"
| "getitems m (t # ts) =
     (case getitem m t of
        Inl e \<Rightarrow> Inl e
      | Inr v \<Rightarrow> (case getitems m ts of Inl e \<Rightarrow> Inl e | Inr vs \<Rightarrow> Inr (v # vs)))"

section \<open>Metadata import\<close>

text \<open>
  \<^verbatim>\<open>import_metadata\<close>: the property, attached-file and description documents of
  the snapshot. Only the fields the importer touches are named; the others travel
  in the record's extension.
\<close>

record property =
  property_id :: "ident option"
  property_domainIdent :: ident


record description =
  desc_id :: "ident option"
  desc_domainIdent :: ident
  desc_domainClassName :: py_string

text \<open>\<^verbatim>\<open>os.path.join\<close> on POSIX paths, two components then three.\<close>

definition path_join :: "py_string \<Rightarrow> py_string \<Rightarrow> py_string" where
  "path_join a b =
     (if b \<noteq> [] \<and> hd b = (of_char CHR ''/'') then b
      else if a = [] \<or> last a = (of_char CHR ''/'') then a @ b
      else a @ str_of ''/'' @ b)"






text \<open>A \<^verbatim>\<open>for\<close> loop whose body may raise: the first error ends the loop.\<close>

fun for_each :: "('a \<Rightarrow> py_error + 'b) \<Rightarrow> 'a list \<Rightarrow> py_error + 'b list" where
  "for_each f [] = Inr []"
| "for_each f (x # xs) =
     (case f x of
        Inl e \<Rightarrow> Inl e
      | Inr y \<Rightarrow> (case for_each f xs of Inl e \<Rightarrow> Inl e | Inr ys \<Rightarrow> Inr (y # ys)))"





section \<open>Names: stripping and numbered suffixes\<close>

text \<open>
  \<^verbatim>\<open>str.strip()\<close> removes the leading and trailing characters for which
  \<^verbatim>\<open>str.isspace\<close> holds. For a \<^verbatim>\<open>str\<close> these are the Unicode whitespace characters:
  U+0009 to U+000D, U+001C to U+001F, U+0020, U+0085 (next line), U+00A0 (no-break
  space), U+1680, U+2000 to U+200A, U+2028, U+2029, U+202F, U+205F and U+3000.
  \<open>py_str\<close> is \<^verbatim>\<open>str(i)\<close> for a natural number, and \<open>suffixed name i\<close> is the f-string
  \<^verbatim>\<open>f"{name} ({i})"\<close>.
\<close>

definition is_space :: "nat \<Rightarrow> bool" where
  "is_space c = (c \<in> set [0x09, 0x0A, 0x0B, 0x0C, 0x0D, 0x1C, 0x1D, 0x1E, 0x1F, 0x20,
     0x85, 0xA0, 0x1680, 0x2000, 0x2001, 0x2002, 0x2003, 0x2004, 0x2005, 0x2006, 0x2007,
     0x2008, 0x2009, 0x200A, 0x2028, 0x2029, 0x202F, 0x205F, 0x3000])"

definition strip :: "py_string \<Rightarrow> py_string" where
  "strip s = rev (dropWhile is_space (rev (dropWhile is_space s)))"

definition digit :: "nat \<Rightarrow> nat" where
  "digit n = of_char CHR ''0'' + n"

fun py_str :: "nat \<Rightarrow> py_string" where
  "py_str n = (if n < 10 then [digit n] else py_str (n div 10) @ [digit (n mod 10)])"

declare py_str.simps [simp del]

definition suffixed :: "py_string \<Rightarrow> nat \<Rightarrow> py_string" where
  "suffixed name i = name @ str_of '' ('' @ py_str i @ str_of '')''"

subsection \<open>Distinct numbers give distinct names\<close>

text \<open>These facts are what makes the two renaming loops of the importer end.\<close>

lemma digit_inj: "a < 10 \<Longrightarrow> b < 10 \<Longrightarrow> digit a = digit b \<Longrightarrow> a = b"
  by (simp add: digit_def)

lemma py_str_nonempty: "py_str n \<noteq> []"
  by (subst py_str.simps) simp

lemma py_str_inj: "py_str a = py_str b \<Longrightarrow> a = b"
proof (induction a arbitrary: b rule: py_str.induct)
  case (1 n)
  show ?case
  proof (cases "n < 10")
    case True
    then have n: "py_str n = [digit n]" by (subst py_str.simps) simp
    show ?thesis
    proof (cases "b < 10")
      case b: True
      then have "py_str b = [digit b]" by (subst py_str.simps) simp
      with n "1.prems" True b show ?thesis by (auto dest: digit_inj)
    next
      case b: False
      then have "py_str b = py_str (b div 10) @ [digit (b mod 10)]"
        by (subst py_str.simps) simp
      with n "1.prems" show ?thesis using py_str_nonempty [of "b div 10"] by auto
    qed
  next
    case False
    then have n: "py_str n = py_str (n div 10) @ [digit (n mod 10)]"
      by (subst py_str.simps) simp
    show ?thesis
    proof (cases "b < 10")
      case b: True
      then have "py_str b = [digit b]" by (subst py_str.simps) simp
      with n "1.prems" show ?thesis using py_str_nonempty [of "n div 10"] by auto
    next
      case b: False
      then have "py_str b = py_str (b div 10) @ [digit (b mod 10)]"
        by (subst py_str.simps) simp
      with n "1.prems" have "py_str (n div 10) = py_str (b div 10)"
        "digit (n mod 10) = digit (b mod 10)"
        by auto
      then have "n div 10 = b div 10" "n mod 10 = b mod 10"
        using "1.IH" [OF False, of "b div 10"] digit_inj [of "n mod 10" "b mod 10"]
        by simp_all
      then show ?thesis by (metis div_mult_mod_eq)
    qed
  qed
qed

lemma suffixed_inj: "suffixed name i = suffixed name j \<Longrightarrow> i = j"
  by (auto simp: suffixed_def dest: py_str_inj)

lemma strip_suffixed:
  "strip (suffixed name i) =
     (if \<forall>c \<in> set name. is_space c then str_of ''('' @ py_str i @ str_of '')''
      else dropWhile is_space name @ str_of '' ('' @ py_str i @ str_of '')'')"
proof -
  have sp: "is_space 32" "\<not> is_space 40" "\<not> is_space 41"
    by (simp_all add: is_space_def)
  show ?thesis
  proof (cases "\<forall>c \<in> set name. is_space c")
    case True
    then have "dropWhile is_space (suffixed name i) = str_of ''('' @ py_str i @ str_of '')''"
      by (simp add: suffixed_def sp)
    then show ?thesis using True by (simp add: strip_def sp)
  next
    case False
    then have "dropWhile is_space (suffixed name i) =
        dropWhile is_space name @ str_of '' ('' @ py_str i @ str_of '')''"
      by (auto simp: suffixed_def)
    then show ?thesis using False by (simp add: strip_def sp)
  qed
qed

lemma strip_suffixed_inj: "strip (suffixed name i) = strip (suffixed name j) \<Longrightarrow> i = j"
  by (auto simp: strip_suffixed dest: py_str_inj split: if_splits)

text \<open>
  Counting the numbers from \<open>i\<close> on whose name is taken: when the names are distinct
  and the taken names finitely many, passing \<open>i\<close> lowers the count by one if the name of
  \<open>i\<close> is taken.
\<close>

lemma taken_from_Suc:
  assumes inj: "\<And>i j. g i = g j \<Longrightarrow> i = j" and fin: "finite N"
  shows "card {j. Suc i \<le> j \<and> g j \<in> N} + (if g i \<in> N then 1 else 0)
         = card {j. i \<le> j \<and> g j \<in> N}"
proof -
  have "inj g" using inj by (auto simp: inj_on_def)
  then have "finite (g -` N)" using fin by (rule finite_vimageI [rotated])
  then have f: "finite {j. Suc i \<le> j \<and> g j \<in> N}"
    by (rule rev_finite_subset) auto
  show ?thesis
  proof (cases "g i \<in> N")
    case True
    then have "{j. i \<le> j \<and> g j \<in> N} = insert i {j. Suc i \<le> j \<and> g j \<in> N}"
      by (auto simp: Suc_le_eq le_less)
    with f True show ?thesis by simp
  next
    case False
    then have "{j. i \<le> j \<and> g j \<in> N} = {j. Suc i \<le> j \<and> g j \<in> N}"
      by (auto simp: Suc_le_eq le_less)
    with False show ?thesis by simp
  qed
qed


section \<open>Annotation import\<close>

text \<open>
  A user annotation of the snapshot. \<open>annot_location\<close> is the geometry (WKT);
  \<open>annot_term\<close> is the list of term identifiers. Every other field travels in the
  record's extension.
\<close>

record annotation =
  annot_id :: "ident option"
  annot_slice :: "ident option"
  annot_project :: ident
  annot_image :: ident
  annot_user :: ident
  annot_term :: "ident list"
  annot_created :: "nat option"
  annot_updated :: "nat option"
  annot_location :: py_string

text \<open>
  \<^verbatim>\<open>_add_annotation(remote_annotation, id_mapping, with_original_date)\<close>. The result
  \<open>Inr None\<close> is the early \<^verbatim>\<open>return\<close> (nothing saved), \<open>Inr (Some a)\<close> is the call
  \<^verbatim>\<open>a.save()\<close>, \<open>Inl e\<close> is the exception \<open>e\<close> leaving the function.
\<close>

definition add_annotation ::
  "'a annotation_scheme \<Rightarrow> id_mapping \<Rightarrow> bool \<Rightarrow> py_error + 'a annotation_scheme option" where
  "add_annotation remote_annotation m with_original_date =
     (if annot_project remote_annotation \<notin> dom m \<or> annot_image remote_annotation \<notin> dom m
      then Inr None
      else
        (case getitem m (annot_project remote_annotation) of
           Inl e \<Rightarrow> Inl e
         | Inr p \<Rightarrow>
        (case getitem m (annot_image remote_annotation) of
           Inl e \<Rightarrow> Inl e
         | Inr i \<Rightarrow>
        (case getitem m (annot_user remote_annotation) of
           Inl e \<Rightarrow> Inl e
         | Inr u \<Rightarrow>
        (case getitems m (annot_term remote_annotation) of
           Inl e \<Rightarrow> Inl e
         | Inr ts \<Rightarrow>
             (let a = remote_annotation\<lparr>annot_id := None, annot_slice := None,
                        annot_project := p, annot_image := i, annot_user := u,
                        annot_term := ts\<rparr>;
                  a' = (if \<not> with_original_date
                        then a\<lparr>annot_created := None, annot_updated := None\<rparr> else a)
              in Inr (Some a')))))))"

text \<open>
  The reading of claim C7 in the words of the specification: a skipped annotation, or
  else the annotation with its four references rewritten and nothing else changed.
\<close>

definition add_annotation_as_specified ::
  "'a annotation_scheme \<Rightarrow> id_mapping \<Rightarrow> 'a annotation_scheme option" where
  "add_annotation_as_specified remote_annotation m =
     (if annot_project remote_annotation \<notin> dom m \<or> annot_image remote_annotation \<notin> dom m
      then None
      else Some (remote_annotation\<lparr>
        annot_project := the (m (annot_project remote_annotation)),
        annot_image := the (m (annot_image remote_annotation)),
        annot_user := the (m (annot_user remote_annotation)),
        annot_term := map (\<lambda>t. the (m t)) (annot_term remote_annotation)\<rparr>))"


section \<open>Image import\<close>

text \<open>
  Image instances (of the snapshot and of the target), storages and abstract images.
  An attribute that \<^verbatim>\<open>hasattr\<close> may find missing is an option that is \<open>None\<close>.
\<close>

record image_instance =
  img_id :: ident
  img_baseImage :: ident
  img_user :: ident
  img_originalFilename :: py_string
  img_instanceFilename :: py_string
  img_width :: nat
  img_height :: nat
  img_magnification :: "nat option"
  img_created :: "nat option"
  img_updated :: "nat option"
  img_reviewStart :: "nat option"
  img_reviewStop :: "nat option"
  img_reviewUser :: "ident option"

record storage =
  storage_id :: ident
  storage_user :: ident

record abstract_image =
  ai_id :: ident
  ai_originalFilename :: py_string
  ai_width :: nat
  ai_height :: nat
  ai_magnification :: "nat option"
  ai_created :: "nat option"
  ai_updated :: "nat option"

text \<open>\<^verbatim>\<open>find_first(l)\<close>: \<^verbatim>\<open>l[0] if len(l) > 0 else None\<close>.\<close>

definition find_first :: "'a list \<Rightarrow> 'a option" where
  "find_first l = (case l of [] \<Rightarrow> None | x # _ \<Rightarrow> Some x)"

text \<open>
  \<^verbatim>\<open>bytes(s, "utf-8").decode("ascii", "ignore")\<close>: a code point below 128 is one
  ASCII byte of the UTF-8 encoding and is kept; any other is encoded in bytes of 128
  and more, which the decoding drops. \<open>replace_slash\<close> is \<^verbatim>\<open>s.replace("/", "-")\<close>.
\<close>

definition ascii_ignore :: "py_string \<Rightarrow> py_string" where
  "ascii_ignore s = filter (\<lambda>c. c < 128) s"

definition replace_slash :: "py_string \<Rightarrow> py_string" where
  "replace_slash s = map (\<lambda>c. if c = of_char CHR ''/'' then of_char CHR ''-'' else c) s"

text \<open>
  The calls \<^verbatim>\<open>import_images\<close> makes, in the order it makes them: an image instance
  linking an abstract image to the project is saved, a file is uploaded (host, file
  name, storage, project), the thread sleeps (in tenths of a second), the image
  instances of a project are fetched, an image instance or an abstract image is
  updated.
\<close>

datatype ('i, 'a) image_call =
    LinkImage ident ident
  | UploadImage py_string py_string ident ident
  | Sleep nat
  | FetchImages ident
  | UpdateImage "'i image_instance_scheme"
  | UpdateAbstract "'a abstract_image_scheme"

text \<open>
  What \<^verbatim>\<open>import_images\<close> reads besides the snapshot's images: the importer's
  settings, the collections fetched at its start, the origin identifier of the
  project, and the two server queries of its later part. \<open>fetch_with_filter n p\<close> is
  the server's answer to the query for the image instances of project \<open>p\<close> when \<open>n\<close>
  such queries were answered before; \<open>fetch_abstract b\<close> is the abstract image \<open>b\<close> of
  the target, if there is one.
\<close>

record ('i, 'a) image_env =
  host_upload :: py_string
  working_path :: py_string
  with_original_date :: bool
  storages :: "storage list"
  abstract_images :: "'a abstract_image_scheme list"
  remote_project_id :: ident
  fetch_with_filter :: "nat \<Rightarrow> ident \<Rightarrow> 'i image_instance_scheme list"
  fetch_abstract :: "ident \<Rightarrow> 'a abstract_image_scheme option"

type_synonym 'i images_dict = "py_string \<rightharpoonup> 'i image_instance_scheme list"

text \<open>
  The first loop of \<^verbatim>\<open>import_images\<close>, over the snapshot's images: the image is filed
  under its file name (made ASCII) in \<^verbatim>\<open>remote_images_dict\<close>, then linked when an
  abstract image of the same file name, width and height exists, uploaded otherwise.
  The user connected is the one the image's creator is mapped to.
\<close>

fun submit_images ::
  "('i, 'a) image_env \<Rightarrow> id_mapping \<Rightarrow> 'i image_instance_scheme list \<Rightarrow>
   'i images_dict \<times> ('i, 'a) image_call list \<Rightarrow>
   py_error + 'i images_dict \<times> ('i, 'a) image_call list" where
  "submit_images env m [] s = Inr s"
| "submit_images env m (remote_image0 # rest) (remote_images_dict, calls) =
     (let image = remote_image0;
          remote_image = remote_image0\<lparr>img_originalFilename :=
            ascii_ignore (img_originalFilename remote_image0)\<rparr>;
          name = img_originalFilename remote_image;
          remote_images_dict' =
            (case remote_images_dict name of
               None \<Rightarrow> remote_images_dict(name \<mapsto> [remote_image])
             | Some l \<Rightarrow> remote_images_dict(name \<mapsto> l @ [remote_image]))
      in
      (case getitem m (img_user remote_image) of
         Inl e \<Rightarrow> Inl e
       | Inr current_user \<Rightarrow>
      (case (case find_first (filter (\<lambda>s. storage_user s = current_user) (storages env)) of
               Some s \<Rightarrow> Inr s
             | None \<Rightarrow> (case storages env of [] \<Rightarrow> Inl IndexError | s # _ \<Rightarrow> Inr s)) of
         Inl e \<Rightarrow> Inl e
       | Inr storage \<Rightarrow>
      (case find_first (filter (\<lambda>ai. ai_originalFilename ai = img_originalFilename remote_image
                \<and> ai_width ai = img_width remote_image
                \<and> ai_height ai = img_height remote_image) (abstract_images env)) of
         Some abstract_image \<Rightarrow>
           (case getitem m (remote_project_id env) of
              Inl e \<Rightarrow> Inl e
            | Inr p \<Rightarrow>
                submit_images env m rest
                  (remote_images_dict', calls @ [LinkImage (ai_id abstract_image) p]))
       | None \<Rightarrow>
           (let filename = path_join (path_join (working_path env) (str_of ''images''))
                             (replace_slash (img_originalFilename image))
            in
            (case getitem m (remote_project_id env) of
               Inl e \<Rightarrow> Inl e
             | Inr p \<Rightarrow>
                 submit_images env m rest
                   (remote_images_dict',
                    calls @ [UploadImage (host_upload env) filename (storage_id storage) p,
                             Sleep 8])))))))"

text \<open>
  The polling loop of \<^verbatim>\<open>import_images\<close>. Its state is the three variables
  \<^verbatim>\<open>n_new_images\<close>, \<^verbatim>\<open>new_images\<close> (\<open>None\<close> until the first query) and \<^verbatim>\<open>count\<close>, and
  the calls made so far. Each turn makes one query, so \<^verbatim>\<open>count\<close> is also the number
  of queries answered before.
\<close>

record ('i, 'a) poll_state =
  n_new_images :: int
  new_images :: "'i image_instance_scheme list option"
  count :: nat
  poll_calls :: "('i, 'a) image_call list"

definition poll_init :: "('i, 'a) poll_state" where
  "poll_init = \<lparr>n_new_images = - 1, new_images = None, count = 0, poll_calls = []\<rparr>"

function wait_for_images ::
  "('i, 'a) image_env \<Rightarrow> id_mapping \<Rightarrow> nat \<Rightarrow> ('i, 'a) poll_state \<Rightarrow>
   py_error + ('i, 'a) poll_state" where
  "wait_for_images env m len_remote_images s =
     (if n_new_images s \<noteq> int len_remote_images \<and> count s < len_remote_images * 5 then
        (case getitem m (remote_project_id env) of
           Inl e \<Rightarrow> Inl e
         | Inr p \<Rightarrow>
             (let fetched = fetch_with_filter env (count s) p
              in wait_for_images env m len_remote_images
                   \<lparr>n_new_images = int (length fetched), new_images = Some fetched,
                    count = count s + 1,
                    poll_calls = poll_calls s @ FetchImages p #
                      (if count s > 0 then [Sleep 50] else [])\<rparr>))
      else Inr s)"
  by pat_completeness auto
termination
  by (relation "measure (\<lambda>(env, m, len_remote_images, s). len_remote_images * 5 - count s)") auto

text \<open>
  The last loop of \<^verbatim>\<open>import_images\<close>, over the image instances found on the target:
  the snapshot image filed last under the same file name is taken (\<^verbatim>\<open>pop()\<close>), its
  review window, reviewer and instance file name are copied, and the identifier
  mapping is written for the image instance and for its abstract image.
\<close>

fun fix_image_instances ::
  "('i, 'a) image_env \<Rightarrow> 'i image_instance_scheme list \<Rightarrow>
   id_mapping \<times> 'i images_dict \<times> ('i, 'a) image_call list \<Rightarrow>
   py_error + id_mapping \<times> 'i images_dict \<times> ('i, 'a) image_call list" where
  "fix_image_instances env [] s = Inr s"
| "fix_image_instances env (new_image0 # rest) (m, remote_images_dict, calls) =
     (case remote_images_dict (img_originalFilename new_image0) of
        None \<Rightarrow> Inl (KeyErrorName (img_originalFilename new_image0))
      | Some l \<Rightarrow>
          if l = [] then Inl IndexError
          else
            (let remote_image = last l;
                 remote_images_dict' =
                   remote_images_dict(img_originalFilename new_image0 \<mapsto> butlast l);
                 new_image1 =
                   (if with_original_date env
                    then new_image0\<lparr>img_created := img_created remote_image,
                           img_updated := img_updated remote_image\<rparr>
                    else new_image0);
                 new_image2 = new_image1\<lparr>img_reviewStart := img_reviewStart remote_image,
                                img_reviewStop := img_reviewStop remote_image\<rparr>
             in
             (case (case img_reviewUser remote_image of
                      None \<Rightarrow> Inr None
                    | Some r \<Rightarrow>
                        if r = 0 then Inr None
                        else (case getitem m r of Inl e \<Rightarrow> Inl e | Inr v \<Rightarrow> Inr (Some v))) of
                Inl e \<Rightarrow> Inl e
              | Inr review_user \<Rightarrow>
                  (let new_image = new_image2\<lparr>img_reviewUser := review_user,
                         img_instanceFilename := img_instanceFilename remote_image\<rparr>;
                       m1 = setitem m (img_id remote_image) (img_id new_image);
                       m2 = setitem m1 (img_baseImage remote_image) (img_baseImage new_image)
                   in
                   (case fetch_abstract env (img_baseImage new_image) of
                      None \<Rightarrow> Inl AttributeError
                    | Some new_abstract0 \<Rightarrow>
                        (let new_abstract1 =
                               (if with_original_date env
                                then new_abstract0\<lparr>ai_created := img_created remote_image,
                                       ai_updated := img_updated remote_image\<rparr>
                                else new_abstract0);
                             new_abstract =
                               (if ai_magnification new_abstract1 = None
                                then new_abstract1\<lparr>ai_magnification :=
                                       img_magnification remote_image\<rparr>
                                else new_abstract1)
                         in fix_image_instances env rest
                              (m2, remote_images_dict',
                               calls @ [UpdateImage new_image, UpdateAbstract new_abstract])))))))"

text \<open>
  \<^verbatim>\<open>import_images\<close>: the three loops in sequence. Iterating over \<^verbatim>\<open>new_images\<close> raises
  \<^verbatim>\<open>TypeError\<close> when it is still \<^verbatim>\<open>None\<close>. The result is the identifier mapping and the
  calls made.
\<close>

definition import_images ::
  "('i, 'a) image_env \<Rightarrow> id_mapping \<Rightarrow> 'i image_instance_scheme list \<Rightarrow>
   py_error + id_mapping \<times> ('i, 'a) image_call list" where
  "import_images env m remote_images =
     (case submit_images env m remote_images (Map.empty, []) of
        Inl e \<Rightarrow> Inl e
      | Inr (remote_images_dict, calls) \<Rightarrow>
          (case wait_for_images env m (length remote_images) poll_init of
             Inl e \<Rightarrow> Inl e
           | Inr s \<Rightarrow>
               (case new_images s of
                  None \<Rightarrow> Inl TypeError
                | Some imgs \<Rightarrow>
                    (case fix_image_instances env imgs
                            (m, remote_images_dict, calls @ poll_calls s) of
                       Inl e \<Rightarrow> Inl e
                     | Inr (m', d, calls') \<Rightarrow> Inr (m', calls')))))"

text \<open>
  The state of the polling loop after \<open>k\<close> queries for project \<open>p\<close>, and the calls made
  until then: one query per turn, and a sleep of five seconds at the end of every turn
  but the first.
\<close>

fun polled_calls :: "ident \<Rightarrow> nat \<Rightarrow> ('i, 'a) image_call list" where
  "polled_calls p 0 = []"
| "polled_calls p (Suc k) = polled_calls p k @ FetchImages p # (if k > 0 then [Sleep 50] else [])"

definition polled :: "('i, 'a) image_env \<Rightarrow> ident \<Rightarrow> nat \<Rightarrow> ('i, 'a) poll_state" where
  "polled env p k =
     (if k = 0 then poll_init
      else \<lparr>n_new_images = int (length (fetch_with_filter env (k - 1) p)),
            new_images = Some (fetch_with_filter env (k - 1) p),
            count = k, poll_calls = polled_calls p k\<rparr>)"

text \<open>
  A target for the examples: one storage, no abstract image, and a server that shows
  the project's image instances, \<open>shown\<close>, from the query numbered \<open>ready\<close> on (and none
  before).
\<close>

definition example_env :: "nat \<Rightarrow> image_instance list \<Rightarrow> (unit, unit) image_env" where
  "example_env ready shown =
     \<lparr>host_upload = str_of ''upload.example'', working_path = str_of ''snapshot'',
      with_original_date = False,
      storages = [\<lparr>storage_id = 9, storage_user = 40\<rparr>], abstract_images = [],
      remote_project_id = 7,
      fetch_with_filter = (\<lambda>n p. if ready \<le> n \<and> p = 70 then shown else []),
      fetch_abstract = (\<lambda>b. Some \<lparr>ai_id = b, ai_originalFilename = str_of ''a.tif'', ai_width = 10,
        ai_height = 10, ai_magnification = None, ai_created = None, ai_updated = None\<rparr>)\<rparr>"

definition example_image :: "ident \<Rightarrow> ident \<Rightarrow> py_string \<Rightarrow> image_instance" where
  "example_image i b name =
     \<lparr>img_id = i, img_baseImage = b, img_user = 4, img_originalFilename = name,
      img_instanceFilename = name, img_width = 10, img_height = 10,
      img_magnification = Some 20, img_created = Some 1, img_updated = Some 2,
      img_reviewStart = None, img_reviewStop = None, img_reviewUser = None\<rparr>"


section \<open>The target server: users, ontologies, terms and projects\<close>

text \<open>
  The entities the importer reads from the snapshot and creates on the target. A role
  of a user is one of the strings the exporter records (\<^verbatim>\<open>project_manager\<close>,
  \<^verbatim>\<open>project_contributor\<close>, ...).
\<close>

record user =
  user_id :: ident
  user_username :: py_string
  user_password :: "py_string option"
  user_roles :: "py_string list"
  user_created :: "nat option"
  user_updated :: "nat option"

record ontology =
  ont_id :: ident
  ont_name :: py_string
  ont_user :: ident
  ont_created :: "nat option"
  ont_updated :: "nat option"

record ont_term =
  term_id :: ident
  term_name :: py_string
  term_color :: py_string
  term_ontology :: ident
  term_parent :: "ident option"
  term_created :: "nat option"
  term_updated :: "nat option"

record project =
  project_id :: ident
  project_name :: py_string
  project_ontology :: ident
  project_discipline :: "ident option"
  project_users :: "ident list"
  project_admins :: "ident list"
  project_created :: "nat option"
  project_updated :: "nat option"

text \<open>
  The calls that reach the server, in the order they are made: \<^verbatim>\<open>connect_as\<close> a user or
  back to the super admin, and the \<^verbatim>\<open>save()\<close> of a new entity.
\<close>

datatype server_call =
    ConnectAs ident
  | ConnectAdmin
  | SaveUser user
  | SaveOntology ontology
  | SaveTerm ont_term
  | SaveRelationTerm ident ident
  | SaveProject project

text \<open>
  The target server as the importer sees it: the collections it fetches, the identifier
  the server gives to the next saved entity, and the calls received. The server is not
  part of the repository; \<^verbatim>\<open>x.id = None; x.save()\<close> is modelled as the server storing
  \<open>x\<close> under the identifier \<open>next_id\<close> at the end of its collection and handing it back.
\<close>

record target =
  users :: "user list"
  ontologies :: "ontology list"
  terms :: "ont_term list"
  relation_terms :: "(ident \<times> ident) list"
  projects :: "project list"
  next_id :: ident
  calls :: "server_call list"

definition connect_as :: "target \<Rightarrow> ident \<Rightarrow> target" where
  "connect_as tgt u = tgt\<lparr>calls := calls tgt @ [ConnectAs u]\<rparr>"

definition connect_as_super_admin :: "target \<Rightarrow> target" where
  "connect_as_super_admin tgt = tgt\<lparr>calls := calls tgt @ [ConnectAdmin]\<rparr>"

definition save_user :: "target \<Rightarrow> user \<Rightarrow> user \<times> target" where
  "save_user tgt u =
     (let saved = u\<lparr>user_id := next_id tgt\<rparr>
      in (saved, tgt\<lparr>users := users tgt @ [saved], next_id := Suc (next_id tgt),
                     calls := calls tgt @ [SaveUser saved]\<rparr>))"

definition save_ontology :: "target \<Rightarrow> ontology \<Rightarrow> ontology \<times> target" where
  "save_ontology tgt ontology =
     (let saved = ontology\<lparr>ont_id := next_id tgt\<rparr>
      in (saved, tgt\<lparr>ontologies := ontologies tgt @ [saved], next_id := Suc (next_id tgt),
                     calls := calls tgt @ [SaveOntology saved]\<rparr>))"

definition save_term :: "target \<Rightarrow> ont_term \<Rightarrow> ont_term \<times> target" where
  "save_term tgt t =
     (let saved = t\<lparr>term_id := next_id tgt\<rparr>
      in (saved, tgt\<lparr>terms := terms tgt @ [saved], next_id := Suc (next_id tgt),
                     calls := calls tgt @ [SaveTerm saved]\<rparr>))"

definition save_relation_term :: "target \<Rightarrow> ident \<Rightarrow> ident \<Rightarrow> target" where
  "save_relation_term tgt parent child =
     tgt\<lparr>relation_terms := relation_terms tgt @ [(parent, child)],
         calls := calls tgt @ [SaveRelationTerm parent child]\<rparr>"

definition save_project :: "target \<Rightarrow> project \<Rightarrow> project \<times> target" where
  "save_project tgt p =
     (let saved = p\<lparr>project_id := next_id tgt\<rparr>
      in (saved, tgt\<lparr>projects := projects tgt @ [saved], next_id := Suc (next_id tgt),
                     calls := calls tgt @ [SaveProject saved]\<rparr>))"

section \<open>User import\<close>

text \<open>
  The user loop of \<^verbatim>\<open>run\<close>. \<open>fetched\<close> is the user collection fetched before the loop;
  \<open>random_string\<close> stands for the random password, one per saved user.
\<close>

fun import_users ::
  "(ident \<Rightarrow> py_string) \<Rightarrow> bool \<Rightarrow> user list \<Rightarrow> user list \<Rightarrow> id_mapping \<times> target \<Rightarrow>
   id_mapping \<times> target" where
  "import_users random_string wod fetched [] s = s"
| "import_users random_string wod fetched (remote_user # rest) (m, tgt) =
     (case find_first (filter (\<lambda>u. user_username u = user_username remote_user) fetched) of
        Some u \<Rightarrow>
          import_users random_string wod fetched rest
            (setitem m (user_id remote_user) (user_id u), tgt)
      | None \<Rightarrow>
          (let u1 = (if user_password remote_user = None \<or> user_password remote_user = Some []
                     then remote_user\<lparr>user_password := Some (random_string (next_id tgt))\<rparr>
                     else remote_user);
               u2 = (if \<not> wod then u1\<lparr>user_created := None, user_updated := None\<rparr> else u1);
               (saved, tgt') = save_user tgt u2
           in import_users random_string wod fetched rest
                (setitem m (user_id remote_user) (user_id saved), tgt')))"

section \<open>Ontology import\<close>

text \<open>
  \<^verbatim>\<open>ontology_exists()\<close>, for the name the snapshot ontology bears at the time of the call:
  the first target ontology of that name (stripped) is compatible when every
  (name, color) pair of the snapshot's terms is one of its terms' pairs. The result is
  the pair \<^verbatim>\<open>(found, existing_ontology)\<close>.
\<close>

definition ontology_exists ::
  "ontology list \<Rightarrow> ont_term list \<Rightarrow> ont_term list \<Rightarrow> py_string \<Rightarrow> bool \<times> ontology option" where
  "ontology_exists ontologies' terms' remote_terms remote_ontology_name =
     (case find_first (filter (\<lambda>ont. ont_name ont = strip remote_ontology_name) ontologies') of
        Some compatible_ontology \<Rightarrow>
          (let set1 = set (map (\<lambda>t. (term_name t, term_color t))
                        (filter (\<lambda>t. term_ontology t = ont_id compatible_ontology) terms'));
               difference = filter (\<lambda>t. (term_name t, term_color t) \<notin> set1) remote_terms
           in if length difference = 0 then (True, Some compatible_ontology)
              else (False, None))
      | None \<Rightarrow> (True, None))"

lemma find_first_filter_Some:
  "find_first (filter P xs) = Some x \<Longrightarrow> x \<in> set xs \<and> P x"
proof -
  assume "find_first (filter P xs) = Some x"
  then have "x \<in> set (filter P xs)"
    by (cases "filter P xs") (simp_all add: find_first_def)
  then show ?thesis by simp
qed

lemma ontology_exists_not_found:
  "ontology_exists os ts rts name = (False, x) \<Longrightarrow> strip name \<in> ont_name ` set os"
proof -
  assume a: "ontology_exists os ts rts name = (False, x)"
  then obtain c where "find_first (filter (\<lambda>ont. ont_name ont = strip name) os) = Some c"
    by (cases "find_first (filter (\<lambda>ont. ont_name ont = strip name) os)")
      (auto simp: ontology_exists_def)
  then have "c \<in> set os \<and> ont_name c = strip name" by (rule find_first_filter_Some)
  then show ?thesis by force
qed

text \<open>
  The renaming loop of \<^verbatim>\<open>import_ontology\<close>: the state is the current name of the
  snapshot ontology and the counter \<^verbatim>\<open>i\<close>; the result is the final name and
  \<^verbatim>\<open>existing_ontology\<close>.
\<close>

function find_ontology ::
  "ontology list \<Rightarrow> ont_term list \<Rightarrow> ont_term list \<Rightarrow> py_string \<Rightarrow> py_string \<Rightarrow> nat \<Rightarrow>
   py_string \<times> ontology option" where
  "find_ontology ontologies' terms' remote_terms remote_name name i =
     (case ontology_exists ontologies' terms' remote_terms name of
        (True, existing_ontology) \<Rightarrow> (name, existing_ontology)
      | (False, existing_ontology) \<Rightarrow>
          find_ontology ontologies' terms' remote_terms remote_name
            (suffixed remote_name i) (i + 1))"
  by pat_completeness auto
termination
proof (relation "measure (\<lambda>(os, ts, rts, remote_name, name, i).
    card {j. i \<le> j \<and> strip (suffixed remote_name j) \<in> ont_name ` set os}
    + (if strip name \<in> ont_name ` set os then 1 else 0))", goal_cases)
  case 1
  then show ?case by simp
next
  case (2 os ts rts remote_name name i x y)
  then have "strip name \<in> ont_name ` set os"
    by (auto dest: ontology_exists_not_found sym)
  moreover have "card {j. Suc i \<le> j \<and> strip (suffixed remote_name j) \<in> ont_name ` set os}
      + (if strip (suffixed remote_name i) \<in> ont_name ` set os then 1 else 0)
      = card {j. i \<le> j \<and> strip (suffixed remote_name j) \<in> ont_name ` set os}"
    by (rule taken_from_Suc) (auto dest: strip_suffixed_inj)
  ultimately show ?case by simp
qed

declare find_ontology.simps [simp del]

text \<open>The term loop and the relation loop of the branch that creates the ontology.\<close>

fun import_terms ::
  "bool \<Rightarrow> ont_term list \<Rightarrow> id_mapping \<times> target \<Rightarrow> py_error + id_mapping \<times> target" where
  "import_terms wod [] s = Inr s"
| "import_terms wod (remote_term # rest) (m, tgt) =
     (case getitem m (term_ontology remote_term) of
        Inl e \<Rightarrow> Inl e
      | Inr ont \<Rightarrow>
          (let t1 = remote_term\<lparr>term_ontology := ont, term_parent := None\<rparr>;
               t2 = (if \<not> wod then t1\<lparr>term_created := None, term_updated := None\<rparr> else t1);
               (saved, tgt') = save_term tgt t2
           in import_terms wod rest (setitem m (term_id remote_term) (term_id saved), tgt')))"

fun import_relation_terms ::
  "id_mapping \<Rightarrow> (ident option \<times> ident) list \<Rightarrow> target \<Rightarrow> py_error + target" where
  "import_relation_terms m [] tgt = Inr tgt"
| "import_relation_terms m ((parent, child) # rest) tgt =
     (if parent = None \<or> parent = Some 0 then import_relation_terms m rest tgt
      else
        (case getitem m (the parent) of
           Inl e \<Rightarrow> Inl e
         | Inr p \<Rightarrow>
             (case getitem m child of
                Inl e \<Rightarrow> Inl e
              | Inr c \<Rightarrow> import_relation_terms m rest (save_relation_term tgt p c))))"

text \<open>The term loop of the branch that reuses an existing ontology.\<close>

fun map_terms ::
  "ont_term list \<Rightarrow> ont_term list \<Rightarrow> id_mapping \<Rightarrow> py_error + id_mapping" where
  "map_terms ontology_terms [] m = Inr m"
| "map_terms ontology_terms (remote_term # rest) m =
     (case find_first (filter (\<lambda>t. term_name t = term_name remote_term) ontology_terms) of
        None \<Rightarrow> Inl AttributeError
      | Some t \<Rightarrow> map_terms ontology_terms rest (setitem m (term_id remote_term) (term_id t)))"

text \<open>
  \<^verbatim>\<open>import_ontology\<close>, from the snapshot's ontology and terms and the target's state,
  to the identifier mapping and the target's state after it.
\<close>

definition import_ontology ::
  "bool \<Rightarrow> ontology \<Rightarrow> ont_term list \<Rightarrow> id_mapping \<times> target \<Rightarrow>
   py_error + id_mapping \<times> target" where
  "import_ontology wod remote_ontology0 remote_terms s =
     (case s of (m, tgt) \<Rightarrow>
     (let ontologies' = ontologies tgt;
          stripped = strip (ont_name remote_ontology0);
          terms' = terms tgt;
          (name, existing_ontology) =
            find_ontology ontologies' terms' remote_terms stripped stripped 1;
          remote_ontology = remote_ontology0\<lparr>ont_name := name\<rparr>
      in
      (case getitem m (ont_user remote_ontology) of
         Inl e \<Rightarrow> Inl e
       | Inr u \<Rightarrow>
           (let tgt1 = connect_as tgt u in
            (case existing_ontology of
               None \<Rightarrow>
                 (let o1 = remote_ontology\<lparr>ont_user := u\<rparr>;
                      o2 = (if \<not> wod then o1\<lparr>ont_created := None, ont_updated := None\<rparr>
                            else o1);
                      (saved, tgt2) = save_ontology tgt1 o2;
                      m1 = setitem m (ont_id remote_ontology) (ont_id saved)
                  in
                  (case import_terms wod remote_terms (m1, tgt2) of
                     Inl e \<Rightarrow> Inl e
                   | Inr (m2, tgt3) \<Rightarrow>
                       (case import_relation_terms m2
                               (map (\<lambda>t. (term_parent t, term_id t)) remote_terms) tgt3 of
                          Inl e \<Rightarrow> Inl e
                        | Inr tgt4 \<Rightarrow> Inr (m2, connect_as_super_admin tgt4))))
             | Some existing \<Rightarrow>
                 (let m1 = setitem m (ont_id remote_ontology) (ont_id existing);
                      ontology_terms =
                        filter (\<lambda>t. term_ontology t = ont_id existing) terms'
                  in
                  (case map_terms ontology_terms remote_terms m1 of
                     Inl e \<Rightarrow> Inl e
                   | Inr m2 \<Rightarrow> Inr (m2, connect_as_super_admin tgt1))))))))"

section \<open>Project import\<close>

text \<open>
  \<^verbatim>\<open>available_name()\<close>: the loop over the candidate names, and the function with its
  initial values.
\<close>

function available_name_loop :: "py_string list \<Rightarrow> py_string \<Rightarrow> py_string \<Rightarrow> nat \<Rightarrow> py_string" where
  "available_name_loop existing_names project_name' new_name i =
     (if new_name \<in> set existing_names
      then available_name_loop existing_names project_name' (suffixed project_name' i) (i + 1)
      else new_name)"
  by pat_completeness auto
termination
proof (relation "measure (\<lambda>(names, pn, new_name, i).
    card {j. i \<le> j \<and> suffixed pn j \<in> set names}
    + (if new_name \<in> set names then 1 else 0))", goal_cases)
  case 1
  then show ?case by simp
next
  case (2 names pn new_name i)
  moreover have "card {j. Suc i \<le> j \<and> suffixed pn j \<in> set names}
      + (if suffixed pn i \<in> set names then 1 else 0)
      = card {j. i \<le> j \<and> suffixed pn j \<in> set names}"
    by (rule taken_from_Suc) (auto dest: suffixed_inj)
  ultimately show ?case by simp
qed

declare available_name_loop.simps [simp del]

definition available_name :: "project list \<Rightarrow> py_string \<Rightarrow> py_string" where
  "available_name projects' project_name' =
     available_name_loop (map project_name projects') project_name' project_name' 1"

text \<open>
  \<^verbatim>\<open>import_project\<close>: the project is always saved as a new one, under the available
  name, with its ontology, contributors and managers rewritten through the mapping.
\<close>

definition import_project ::
  "bool \<Rightarrow> user list \<Rightarrow> project \<Rightarrow> id_mapping \<times> target \<Rightarrow> py_error + id_mapping \<times> target" where
  "import_project wod remote_users remote_project0 s =
     (case s of (m, tgt) \<Rightarrow>
     (let projects' = projects tgt;
          remote_project = remote_project0\<lparr>project_name := strip (project_name remote_project0)\<rparr>;
          p1 = remote_project\<lparr>project_name := available_name projects' (project_name remote_project),
                 project_discipline := None\<rparr>
      in
      (case getitem m (project_ontology p1) of
         Inl e \<Rightarrow> Inl e
       | Inr ont \<Rightarrow>
           (case getitems m (map user_id
                   (filter (\<lambda>u. (str_of ''project_contributor'') \<in> set (user_roles u)) remote_users)) of
              Inl e \<Rightarrow> Inl e
            | Inr contributors \<Rightarrow>
                (case getitems m (map user_id
                        (filter (\<lambda>u. (str_of ''project_manager'') \<in> set (user_roles u)) remote_users)) of
                   Inl e \<Rightarrow> Inl e
                 | Inr managers \<Rightarrow>
                     (let p2 = p1\<lparr>project_ontology := ont, project_users := contributors,
                                 project_admins := managers\<rparr>;
                          p3 = (if \<not> wod
                                then p2\<lparr>project_created := None, project_updated := None\<rparr>
                                else p2);
                          (saved, tgt') = save_project tgt p3
                      in Inr (setitem m (project_id remote_project) (project_id saved),
                              tgt')))))))"


section \<open>Reading the ontology import\<close>

text \<open>
  The two variables the renaming loop of \<^verbatim>\<open>import_ontology\<close> leaves behind, as
  functions of the target and the snapshot: the final name of the snapshot ontology
  and \<^verbatim>\<open>existing_ontology\<close> (\<open>None\<close> when a new ontology is to be created).
\<close>

definition final_name :: "target \<Rightarrow> ontology \<Rightarrow> ont_term list \<Rightarrow> py_string" where
  "final_name tgt remote_ontology remote_terms =
     fst (find_ontology (ontologies tgt) (terms tgt) remote_terms
            (strip (ont_name remote_ontology)) (strip (ont_name remote_ontology)) 1)"

definition existing_ontology :: "target \<Rightarrow> ontology \<Rightarrow> ont_term list \<Rightarrow> ontology option" where
  "existing_ontology tgt remote_ontology remote_terms =
     snd (find_ontology (ontologies tgt) (terms tgt) remote_terms
            (strip (ont_name remote_ontology)) (strip (ont_name remote_ontology)) 1)"

text \<open>The (name, color) pairs of a list of terms, and the target's terms of an ontology.\<close>

definition term_pairs :: "ont_term list \<Rightarrow> (py_string \<times> py_string) set" where
  "term_pairs ts = set (map (\<lambda>t. (term_name t, term_color t)) ts)"

definition terms_of :: "target \<Rightarrow> ident \<Rightarrow> ont_term list" where
  "terms_of tgt ont = filter (\<lambda>t. term_ontology t = ont) (terms tgt)"

text \<open>
  The condition of claim C1 in the words of the specification: some target ontology
  has the stripped name of the snapshot ontology and exactly the snapshot's set of
  (name, color) pairs.
\<close>

definition reusable_as_specified :: "target \<Rightarrow> ontology \<Rightarrow> ont_term list \<Rightarrow> bool" where
  "reusable_as_specified tgt remote_ontology remote_terms =
     (\<exists>ont \<in> set (ontologies tgt).
        ont_name ont = strip (ont_name remote_ontology) \<and>
        term_pairs (terms_of tgt (ont_id ont)) = term_pairs remote_terms)"

text \<open>
  The (parent, child) pairs the relation loop replays: those of the snapshot's terms
  whose parent is neither \<^verbatim>\<open>None\<close> nor \<open>0\<close>, in the snapshot's order.
\<close>

definition replayed_relations :: "ont_term list \<Rightarrow> (ident \<times> ident) list" where
  "replayed_relations remote_terms =
     map (\<lambda>t. (the (term_parent t), term_id t))
       (filter (\<lambda>t. term_parent t \<noteq> None \<and> term_parent t \<noteq> Some 0) remote_terms)"




section \<open>A small snapshot and a small target\<close>

text \<open>
  The examples the theorems are run on: a target with one user (identifier 40), an
  ontology \<open>O\<close> with one term and a project \<open>P\<close>; a snapshot with one user, an ontology
  \<open>O\<close> with two terms (the second a child of the first) and a project whose name is
  \<open>P\<close> between spaces.
\<close>

definition example_target :: target where
  "example_target =
     \<lparr>users = [\<lparr>user_id = 40, user_username = str_of ''ann'', user_password = Some (str_of ''pw''),
         user_roles = [], user_created = None, user_updated = None\<rparr>],
      ontologies = [\<lparr>ont_id = 60, ont_name = str_of ''O'', ont_user = 40, ont_created = None,
         ont_updated = None\<rparr>],
      terms = [\<lparr>term_id = 61, term_name = str_of ''cell'', term_color = str_of ''red'', term_ontology = 60,
         term_parent = None, term_created = None, term_updated = None\<rparr>],
      relation_terms = [],
      projects = [\<lparr>project_id = 70, project_name = str_of ''P'', project_ontology = 60,
         project_discipline = None, project_users = [40], project_admins = [40],
         project_created = None, project_updated = None\<rparr>],
      next_id = 100, calls = []\<rparr>"

definition example_remote_users :: "user list" where
  "example_remote_users =
     [\<lparr>user_id = 4, user_username = str_of ''ann'', user_password = None,
       user_roles = [str_of ''project_manager'', str_of ''project_contributor'', str_of ''ontology_creator''],
       user_created = Some 1, user_updated = None\<rparr>]"

definition example_remote_ontology :: ontology where
  "example_remote_ontology =
     \<lparr>ont_id = 6, ont_name = str_of ''O '', ont_user = 4, ont_created = Some 1, ont_updated = None\<rparr>"

definition example_remote_terms :: "ont_term list" where
  "example_remote_terms =
     [\<lparr>term_id = 11, term_name = str_of ''cell'', term_color = str_of ''red'', term_ontology = 6,
       term_parent = None, term_created = Some 1, term_updated = None\<rparr>,
      \<lparr>term_id = 12, term_name = str_of ''nucleus'', term_color = str_of ''blue'', term_ontology = 6,
       term_parent = Some 11, term_created = Some 1, term_updated = None\<rparr>]"

definition example_remote_project :: project where
  "example_remote_project =
     \<lparr>project_id = 7, project_name = str_of '' P '', project_ontology = 6,
      project_discipline = Some 3, project_users = [], project_admins = [],
      project_created = Some 1, project_updated = None\<rparr>"

text \<open>
  The same target after an ontology \<open>O (1)\<close> with the snapshot's two terms was added to
  it.
\<close>

definition example_target_renamed :: target where
  "example_target_renamed =
     example_target\<lparr>
       ontologies := ontologies example_target @
         [\<lparr>ont_id = 62, ont_name = str_of ''O (1)'', ont_user = 40, ont_created = None,
           ont_updated = None\<rparr>],
       terms := terms example_target @
         [\<lparr>term_id = 63, term_name = str_of ''cell'', term_color = str_of ''red'', term_ontology = 62,
           term_parent = None, term_created = None, term_updated = None\<rparr>,
          \<lparr>term_id = 64, term_name = str_of ''nucleus'', term_color = str_of ''blue'', term_ontology = 62,
           term_parent = None, term_created = None, term_updated = None\<rparr>]\<rparr>"

lemmas example_defs = example_target_renamed_def example_target_def example_remote_users_def
  example_remote_project_def example_remote_ontology_def example_remote_terms_def


section \<open>Properties of the identifier mapping and of the metadata import\<close>

lemma getitem_setitem: "getitem (setitem m k v) k = Inr v"
  by (simp add: getitem_def setitem_def)

lemma setitems_other: "k \<notin> fst ` set kvs \<Longrightarrow> setitems m kvs k = m k"
  by (induction m kvs rule: setitems.induct) (auto simp: setitem_def)

lemma getitem_Inr_iff: "getitem m k = Inr v \<longleftrightarrow> m k = Some v"
  by (simp add: getitem_def split: option.splits)

lemma getitem_Inl_iff: "getitem m k = Inl e \<longleftrightarrow> m k = None \<and> e = KeyError k"
  by (auto simp: getitem_def split: option.splits)

lemma for_each_Inr:
  "for_each f xs = Inr ys \<Longrightarrow> list_all2 (\<lambda>x y. f x = Inr y) xs ys"
  by (induction xs arbitrary: ys) (auto split: sum.splits)


lemma for_each_fails:
  "x \<in> set xs \<Longrightarrow> f x = Inl e \<Longrightarrow> \<exists>e'. for_each f xs = Inl e'"
  by (induction xs) (auto split: sum.splits)










section \<open>Properties of the annotation import\<close>

lemma getitems_Inr_iff: "getitems m ts = Inr vs \<longleftrightarrow> map m ts = map Some vs"
proof (induction ts arbitrary: vs)
  case Nil
  then show ?case by auto
next
  case (Cons t ts)
  show ?case
  proof (cases "m t")
    case None
    then show ?thesis by (auto simp: getitem_def)
  next
    case (Some v)
    then show ?thesis
      using Cons.IH by (cases vs; cases "getitems m ts") (auto simp: getitem_def)
  qed
qed

lemma getitems_Inl:
  "getitems m ts = Inl e \<Longrightarrow> \<exists>t \<in> set ts. m t = None \<and> e = KeyError t"
  by (induction ts) (auto simp: getitem_Inl_iff split: sum.splits)

lemma getitems_unmapped:
  "t \<in> set ts \<Longrightarrow> m t = None \<Longrightarrow> \<exists>k. getitems m ts = Inl (KeyError k) \<and> m k = None"
proof (cases "getitems m ts")
  case (Inl e)
  then show ?thesis by (auto dest: getitems_Inl)
next
  case (Inr vs)
  assume "t \<in> set ts" "m t = None"
  moreover from Inr have "map m ts = map Some vs" by (simp add: getitems_Inr_iff)
  then have "m ` set ts \<subseteq> range Some" by (metis image_mono list.set_map subset_UNIV image_set)
  ultimately show ?thesis by force
qed

text \<open>
  Claim C7, as stated, fails: a saved annotation does not keep every other field. With
  the original dates kept and every reference mapped, the slice reference \<open>Some 7\<close> of
  the snapshot annotation is saved as \<^verbatim>\<open>None\<close> (and the identifier is cleared), so the
  saved annotation is not the one the claim describes; and an annotation whose project
  and image are mapped but whose user is not is not saved at all: the lookup raises.
\<close>

theorem add_annotation_counterexample:
  "add_annotation
     \<lparr>annot_id = Some 1, annot_slice = Some 7, annot_project = 2, annot_image = 3,
      annot_user = 4, annot_term = [5], annot_created = Some 10, annot_updated = Some 11,
      annot_location = str_of ''POINT(1 1)''\<rparr>
     [2 \<mapsto> 20, 3 \<mapsto> 30, 4 \<mapsto> 40, 5 \<mapsto> 50] True
   = Inr (Some
     \<lparr>annot_id = None, annot_slice = None, annot_project = 20, annot_image = 30,
      annot_user = 40, annot_term = [50], annot_created = Some 10, annot_updated = Some 11,
      annot_location = str_of ''POINT(1 1)''\<rparr>) \<and>
   add_annotation_as_specified
     \<lparr>annot_id = Some 1, annot_slice = Some 7, annot_project = 2, annot_image = 3,
      annot_user = 4, annot_term = [5], annot_created = Some 10, annot_updated = Some 11,
      annot_location = str_of ''POINT(1 1)''\<rparr>
     [2 \<mapsto> 20, 3 \<mapsto> 30, 4 \<mapsto> 40, 5 \<mapsto> 50]
   = Some
     \<lparr>annot_id = Some 1, annot_slice = Some 7, annot_project = 20, annot_image = 30,
      annot_user = 40, annot_term = [50], annot_created = Some 10, annot_updated = Some 11,
      annot_location = str_of ''POINT(1 1)''\<rparr> \<and>
   add_annotation
     \<lparr>annot_id = Some 1, annot_slice = Some 7, annot_project = 2, annot_image = 3,
      annot_user = 4, annot_term = [5], annot_created = Some 10, annot_updated = Some 11,
      annot_location = str_of ''POINT(1 1)''\<rparr>
     [2 \<mapsto> 20, 3 \<mapsto> 30, 5 \<mapsto> 50] True
   = Inl (KeyError 4)"
  by (simp add: add_annotation_def add_annotation_as_specified_def getitem_def)

text \<open>
  Claim C7, amended. An annotation whose project or image reference is not mapped is
  skipped: nothing is saved and nothing is raised. Otherwise, when its user and every
  term of its term list are mapped, it is saved with the project, image, user and term
  references rewritten through the mapping, its identifier and its slice reference
  cleared, its creation and update dates cleared unless the original dates are kept,
  and every other field (the geometry, the extension) unchanged. Otherwise (the user or
  a term is not mapped) nothing is saved and the lookup raises \<^verbatim>\<open>KeyError\<close>.
\<close>

theorem add_annotation_rewrites:
  "(m (annot_project ra) = None \<or> m (annot_image ra) = None \<longrightarrow>
      add_annotation ra m wod = Inr None) \<and>
   (m (annot_project ra) = Some p \<and> m (annot_image ra) = Some i \<and>
    m (annot_user ra) = Some u \<and> map m (annot_term ra) = map Some ts \<longrightarrow>
      add_annotation ra m wod =
        Inr (Some (ra\<lparr>annot_id := None, annot_slice := None, annot_project := p,
          annot_image := i, annot_user := u, annot_term := ts,
          annot_created := (if wod then annot_created ra else None),
          annot_updated := (if wod then annot_updated ra else None)\<rparr>))) \<and>
   (m (annot_project ra) \<noteq> None \<and> m (annot_image ra) \<noteq> None \<and>
    (m (annot_user ra) = None \<or> (\<exists>t \<in> set (annot_term ra). m t = None)) \<longrightarrow>
      (\<exists>k. add_annotation ra m wod = Inl (KeyError k) \<and> m k = None))"
proof (intro conjI impI)
  assume "m (annot_project ra) = None \<or> m (annot_image ra) = None"
  then show "add_annotation ra m wod = Inr None"
    by (auto simp: add_annotation_def dom_def)
next
  assume "m (annot_project ra) = Some p \<and> m (annot_image ra) = Some i \<and>
    m (annot_user ra) = Some u \<and> map m (annot_term ra) = map Some ts"
  then have "getitem m (annot_project ra) = Inr p" "getitem m (annot_image ra) = Inr i"
    "getitem m (annot_user ra) = Inr u" "getitems m (annot_term ra) = Inr ts"
    "annot_project ra \<in> dom m" "annot_image ra \<in> dom m"
    by (auto simp: getitem_Inr_iff getitems_Inr_iff)
  then show "add_annotation ra m wod =
        Inr (Some (ra\<lparr>annot_id := None, annot_slice := None, annot_project := p,
          annot_image := i, annot_user := u, annot_term := ts,
          annot_created := (if wod then annot_created ra else None),
          annot_updated := (if wod then annot_updated ra else None)\<rparr>))"
    by (simp add: add_annotation_def)
next
  assume a: "m (annot_project ra) \<noteq> None \<and> m (annot_image ra) \<noteq> None \<and>
    (m (annot_user ra) = None \<or> (\<exists>t \<in> set (annot_term ra). m t = None))"
  then obtain p i where pi: "m (annot_project ra) = Some p" "m (annot_image ra) = Some i"
    by auto
  show "\<exists>k. add_annotation ra m wod = Inl (KeyError k) \<and> m k = None"
  proof (cases "m (annot_user ra)")
    case None
    with pi show ?thesis by (auto simp: add_annotation_def getitem_def dom_def)
  next
    case (Some u)
    with a obtain t where "t \<in> set (annot_term ra)" "m t = None" by auto
    then obtain k where "getitems m (annot_term ra) = Inl (KeyError k)" "m k = None"
      by (blast dest: getitems_unmapped)
    with pi Some show ?thesis by (auto simp: add_annotation_def getitem_def dom_def)
  qed
qed

theorem add_annotation_rewrites_witness:
  "add_annotation
     \<lparr>annot_id = Some 1, annot_slice = Some 7, annot_project = 2, annot_image = 3,
      annot_user = 4, annot_term = [5], annot_created = Some 10, annot_updated = Some 11,
      annot_location = str_of ''POINT(1 1)''\<rparr>
     [2 \<mapsto> 20, 3 \<mapsto> 30, 4 \<mapsto> 40, 5 \<mapsto> 50] False
   = Inr (Some
     \<lparr>annot_id = None, annot_slice = None, annot_project = 20, annot_image = 30,
      annot_user = 40, annot_term = [50], annot_created = None, annot_updated = None,
      annot_location = str_of ''POINT(1 1)''\<rparr>) \<and>
   add_annotation
     \<lparr>annot_id = Some 1, annot_slice = Some 7, annot_project = 2, annot_image = 3,
      annot_user = 4, annot_term = [5], annot_created = Some 10, annot_updated = Some 11,
      annot_location = str_of ''POINT(1 1)''\<rparr>
     [2 \<mapsto> 20, 4 \<mapsto> 40, 5 \<mapsto> 50] False = Inr None \<and>
   add_annotation
     \<lparr>annot_id = Some 1, annot_slice = Some 7, annot_project = 2, annot_image = 3,
      annot_user = 4, annot_term = [5], annot_created = Some 10, annot_updated = Some 11,
      annot_location = str_of ''POINT(1 1)''\<rparr>
     [2 \<mapsto> 20, 3 \<mapsto> 30, 4 \<mapsto> 40] False = Inl (KeyError 5)"
  using add_annotation_rewrites [where m = "[2 \<mapsto> 20, 3 \<mapsto> 30, 4 \<mapsto> 40, 5 \<mapsto> 50]"
      and wod = False and p = 20 and i = 30 and u = 40 and ts = "[50]" and ra =
      "\<lparr>annot_id = Some 1, annot_slice = Some 7, annot_project = 2, annot_image = 3,
      annot_user = 4, annot_term = [5], annot_created = Some 10, annot_updated = Some 11,
      annot_location = str_of ''POINT(1 1)''\<rparr>"]
    add_annotation_rewrites [where m = "[2 \<mapsto> 20, 4 \<mapsto> 40, 5 \<mapsto> 50]"
      and wod = False and ra =
      "\<lparr>annot_id = Some 1, annot_slice = Some 7, annot_project = 2, annot_image = 3,
      annot_user = 4, annot_term = [5], annot_created = Some 10, annot_updated = Some 11,
      annot_location = str_of ''POINT(1 1)''\<rparr>"]
    add_annotation_rewrites [where m = "[2 \<mapsto> 20, 3 \<mapsto> 30, 4 \<mapsto> 40]"
      and wod = False and ra =
      "\<lparr>annot_id = Some 1, annot_slice = Some 7, annot_project = 2, annot_image = 3,
      annot_user = 4, annot_term = [5], annot_created = Some 10, annot_updated = Some 11,
      annot_location = str_of ''POINT(1 1)''\<rparr>"]
  by (simp add: add_annotation_def getitem_def)

section \<open>Properties of the image import\<close>

declare wait_for_images.simps [simp del]

lemma count_polled: "count (polled env p k) = k"
  by (simp add: polled_def poll_init_def)

lemma poll_calls_polled: "poll_calls (polled env p k) = polled_calls p k"
  by (simp add: polled_def poll_init_def)

lemma polled_Suc:
  "\<lparr>n_new_images = int (length (fetch_with_filter env c p)),
    new_images = Some (fetch_with_filter env c p), count = Suc c,
    poll_calls = polled_calls p c @ FetchImages p # (if c > 0 then [Sleep 50] else [])\<rparr>
   = polled env p (Suc c)"
  by (simp add: polled_def)

lemma wait_for_images_step:
  assumes "m (remote_project_id env) = Some p"
    and "n_new_images (polled env p c) \<noteq> int E" and "c < E * 5"
  shows "wait_for_images env m E (polled env p c) = wait_for_images env m E (polled env p (Suc c))"
  using assms
  by (subst wait_for_images.simps)
    (simp add: count_polled poll_calls_polled getitem_def polled_Suc)

lemma wait_for_images_stop:
  assumes "n_new_images (polled env p k) = int E \<or> E * 5 \<le> k"
  shows "wait_for_images env m E (polled env p k) = Inr (polled env p k)"
  using assms by (subst wait_for_images.simps) (auto simp: count_polled)

lemma wait_for_images_polled:
  assumes "m (remote_project_id env) = Some p"
    and "c \<le> k"
    and "\<And>j. c \<le> j \<Longrightarrow> j < k \<Longrightarrow> n_new_images (polled env p j) \<noteq> int E \<and> j < E * 5"
    and "n_new_images (polled env p k) = int E \<or> E * 5 \<le> k"
  shows "wait_for_images env m E (polled env p c) = Inr (polled env p k)"
  using assms(2,3)
proof (induction "k - c" arbitrary: c)
  case 0
  then have "c = k" by simp
  then show ?case using assms(4) by (simp add: wait_for_images_stop)
next
  case (Suc d)
  then have lt: "c < k" by simp
  with Suc.prems(2) [of c] have here: "n_new_images (polled env p c) \<noteq> int E" "c < E * 5"
    by auto
  have "wait_for_images env m E (polled env p (Suc c)) = Inr (polled env p k)"
  proof (rule Suc.hyps(1))
    show "d = k - Suc c" using Suc.hyps(2) by simp
    show "Suc c \<le> k" using lt by simp
    show "n_new_images (polled env p j) \<noteq> int E \<and> j < E * 5" if "Suc c \<le> j" "j < k" for j
      using that Suc.prems(2) [of j] by simp
  qed
  with here assms(1) show ?case by (simp add: wait_for_images_step)
qed

lemma polled_calls_fetches:
  "length (filter (\<lambda>c. c = FetchImages p) (polled_calls p k)) = k"
  by (induction k) auto

lemma polled_calls_sleeps:
  "length (filter (\<lambda>c. c = Sleep 50) (polled_calls p k)) = k - 1"
  by (induction k) auto

lemma polled_calls_nonempty: "0 < k \<Longrightarrow> polled_calls p k \<noteq> []"
  by (cases k) auto

lemma polled_calls_hd: "0 < k \<Longrightarrow> hd (polled_calls p k) = FetchImages p"
proof (induction k)
  case 0
  then show ?case by simp
next
  case (Suc k)
  then show ?case by (cases "k = 0") (auto simp: polled_calls_nonempty)
qed

text \<open>
  Claim C2. With the project mapped to \<open>p\<close> and an expected count \<open>E \<ge> 1\<close>: when the
  \<open>k\<close>-th answer (\<open>1 \<le> k \<le> 5 * E\<close>) is the first that holds \<open>E\<close> image instances, the
  polling loop ends without an exception after exactly \<open>k\<close> queries and returns that
  answer, which has \<open>E\<close> elements; when none of the first \<open>5 * E\<close> answers holds \<open>E\<close>
  image instances, it ends without an exception after exactly \<open>5 * E\<close> queries and
  returns the last answer. In both cases the first call of the loop is a query:
  nothing, and so no sleep, comes before it.
\<close>

theorem wait_for_images_convergence:
  assumes "m (remote_project_id env) = Some p" and "1 \<le> E"
  shows
    "(1 \<le> k \<and> k \<le> 5 * E \<and> length (fetch_with_filter env (k - 1) p) = E \<and>
      (\<forall>j < k - 1. length (fetch_with_filter env j p) \<noteq> E) \<longrightarrow>
        wait_for_images env m E poll_init =
          Inr \<lparr>n_new_images = int E, new_images = Some (fetch_with_filter env (k - 1) p),
               count = k, poll_calls = polled_calls p k\<rparr> \<and>
        length (filter (\<lambda>c. c = FetchImages p) (polled_calls p k)) = k \<and>
        hd (polled_calls p k :: ('a, 'b) image_call list) = FetchImages p) \<and>
     ((\<forall>j < 5 * E. length (fetch_with_filter env j p) \<noteq> E) \<longrightarrow>
        wait_for_images env m E poll_init =
          Inr \<lparr>n_new_images = int (length (fetch_with_filter env (5 * E - 1) p)),
               new_images = Some (fetch_with_filter env (5 * E - 1) p),
               count = 5 * E, poll_calls = polled_calls p (5 * E)\<rparr> \<and>
        length (filter (\<lambda>c. c = FetchImages p) (polled_calls p (5 * E))) = 5 * E \<and>
        hd (polled_calls p (5 * E) :: ('a, 'b) image_call list) = FetchImages p)"
proof (intro conjI impI)
  assume a: "1 \<le> k \<and> k \<le> 5 * E \<and> length (fetch_with_filter env (k - 1) p) = E \<and>
      (\<forall>j < k - 1. length (fetch_with_filter env j p) \<noteq> E)"
  have "wait_for_images env m E (polled env p 0) = Inr (polled env p k)"
  proof (rule wait_for_images_polled [where m = m and env = env and p = p, OF assms(1)])
    show "0 \<le> k" by simp
    show "n_new_images (polled env p j) \<noteq> int E \<and> j < E * 5" if "0 \<le> j" "j < k" for j
    proof (cases j)
      case 0
      with a show ?thesis by (simp add: polled_def poll_init_def)
    next
      case (Suc i)
      with that a have "i < k - 1" by simp
      with a have "length (fetch_with_filter env i p) \<noteq> E" by blast
      with Suc that a show ?thesis by (simp add: polled_def)
    qed
    show "n_new_images (polled env p k) = int E \<or> E * 5 \<le> k"
      using a by (simp add: polled_def)
  qed
  with a show "wait_for_images env m E poll_init =
          Inr \<lparr>n_new_images = int E, new_images = Some (fetch_with_filter env (k - 1) p),
               count = k, poll_calls = polled_calls p k\<rparr>"
    by (simp add: polled_def)
  show "length (filter (\<lambda>c. c = FetchImages p) (polled_calls p k)) = k"
    by (rule polled_calls_fetches)
  show "hd (polled_calls p k :: ('a, 'b) image_call list) = FetchImages p"
    using a by (simp add: polled_calls_hd)
next
  assume a: "\<forall>j < 5 * E. length (fetch_with_filter env j p) \<noteq> E"
  have "wait_for_images env m E (polled env p 0) = Inr (polled env p (5 * E))"
  proof (rule wait_for_images_polled [where m = m and env = env and p = p, OF assms(1)])
    show "0 \<le> 5 * E" by simp
    show "n_new_images (polled env p j) \<noteq> int E \<and> j < E * 5" if "0 \<le> j" "j < 5 * E" for j
    proof (cases j)
      case 0
      with that show ?thesis by (simp add: polled_def poll_init_def)
    next
      case (Suc i)
      with that have "i < 5 * E" by simp
      with a have "length (fetch_with_filter env i p) \<noteq> E" by blast
      with Suc that show ?thesis by (simp add: polled_def)
    qed
    show "n_new_images (polled env p (5 * E)) = int E \<or> E * 5 \<le> 5 * E" by simp
  qed
  with assms(2) show "wait_for_images env m E poll_init =
          Inr \<lparr>n_new_images = int (length (fetch_with_filter env (5 * E - 1) p)),
               new_images = Some (fetch_with_filter env (5 * E - 1) p),
               count = 5 * E, poll_calls = polled_calls p (5 * E)\<rparr>"
    by (simp add: polled_def)
  show "length (filter (\<lambda>c. c = FetchImages p) (polled_calls p (5 * E))) = 5 * E"
    by (rule polled_calls_fetches)
  show "hd (polled_calls p (5 * E) :: ('a, 'b) image_call list) = FetchImages p"
    using assms(2) by (simp add: polled_calls_hd)
qed

theorem wait_for_images_convergence_witness:
  "wait_for_images (example_env 1 [example_image 100 50 (str_of ''a.tif'')]) [7 \<mapsto> 70] 1 poll_init =
     Inr \<lparr>n_new_images = 1, new_images = Some [example_image 100 50 (str_of ''a.tif'')], count = 2,
          poll_calls = [FetchImages 70, FetchImages 70, Sleep 50]\<rparr> \<and>
   wait_for_images (example_env 9 [example_image 100 50 (str_of ''a.tif'')]) [7 \<mapsto> 70] 1 poll_init =
     Inr \<lparr>n_new_images = 0, new_images = Some [], count = 5,
          poll_calls = [FetchImages 70, FetchImages 70, Sleep 50, FetchImages 70, Sleep 50,
            FetchImages 70, Sleep 50, FetchImages 70, Sleep 50]\<rparr>"
  using wait_for_images_convergence [where env = "example_env 1 [example_image 100 50 (str_of ''a.tif'')]"
      and m = "[7 \<mapsto> 70]" and p = 70 and E = 1 and k = 2]
    wait_for_images_convergence [where env = "example_env 9 [example_image 100 50 (str_of ''a.tif'')]"
      and m = "[7 \<mapsto> 70]" and p = 70 and E = 1 and k = 1]
  by (simp add: example_env_def eval_nat_numeral)

text \<open>
  Claim C10. With an empty snapshot image collection the polling loop makes no query
  and leaves \<^verbatim>\<open>new_images\<close> at \<^verbatim>\<open>None\<close>, and \<^verbatim>\<open>import_images\<close> raises \<^verbatim>\<open>TypeError\<close> when the
  last loop iterates over it, whatever the target holds.
\<close>

theorem import_images_empty_snapshot:
  "wait_for_images env m (length ([] :: 'i image_instance_scheme list)) poll_init
     = Inr \<lparr>n_new_images = - 1, new_images = None, count = 0, poll_calls = []\<rparr> \<and>
   import_images env m [] = Inl TypeError"
proof -
  have "wait_for_images env m 0 poll_init = Inr poll_init"
    by (subst wait_for_images.simps) simp
  then show ?thesis
    by (simp add: import_images_def) (simp add: poll_init_def)
qed


section \<open>Properties of the project import\<close>

lemma available_name_loop_spec:
  "available_name_loop names pn new i \<notin> set names \<and>
   (if new \<notin> set names then available_name_loop names pn new i = new
    else \<exists>n \<ge> i. available_name_loop names pn new i = suffixed pn n \<and>
           (\<forall>j. i \<le> j \<and> j < n \<longrightarrow> suffixed pn j \<in> set names))"
proof (induction names pn new i rule: available_name_loop.induct)
  case (1 names pn new i)
  show ?case
  proof (cases "new \<in> set names")
    case False
    then show ?thesis by (subst (1 2) available_name_loop.simps) simp
  next
    case True
    let ?r = "available_name_loop names pn (suffixed pn i) (i + 1)"
    have r: "available_name_loop names pn new i = ?r"
      using True by (subst available_name_loop.simps) simp
    note IH = "1.IH" [OF True]
    have "\<exists>n \<ge> i. ?r = suffixed pn n \<and> (\<forall>j. i \<le> j \<and> j < n \<longrightarrow> suffixed pn j \<in> set names)"
    proof (cases "suffixed pn i \<in> set names")
      case False
      with IH have "?r = suffixed pn i" by simp
      then show ?thesis by (intro exI [of _ i]) auto
    next
      case True
      with IH obtain n where n: "i + 1 \<le> n" "?r = suffixed pn n"
        "\<forall>j. i + 1 \<le> j \<and> j < n \<longrightarrow> suffixed pn j \<in> set names"
        by auto
      have "suffixed pn j \<in> set names" if "i \<le> j" "j < n" for j
        using that n(3) True by (cases "j = i") auto
      with n show ?thesis by (intro exI [of _ n]) auto
    qed
    with IH True show ?thesis by (simp add: r)
  qed
qed

lemma available_name_free: "available_name ps P \<notin> project_name ` set ps"
  using available_name_loop_spec [of "map project_name ps" P P 1]
  by (simp add: available_name_def)

lemma available_name_keeps:
  "P \<notin> project_name ` set ps \<Longrightarrow> available_name ps P = P"
  using available_name_loop_spec [of "map project_name ps" P P 1]
  by (simp add: available_name_def)

lemma available_name_suffix:
  assumes "P \<in> project_name ` set ps"
  shows "\<exists>n \<ge> 1. available_name ps P = suffixed P n \<and>
           (\<forall>j. 1 \<le> j \<and> j < n \<longrightarrow> suffixed P j \<in> project_name ` set ps)"
  using available_name_loop_spec [of "map project_name ps" P P 1] assms
  by (simp add: available_name_def)

lemma available_name_least:
  assumes "P \<in> project_name ` set ps" and "1 \<le> n"
    and "suffixed P n \<notin> project_name ` set ps"
    and "\<forall>j. 1 \<le> j \<and> j < n \<longrightarrow> suffixed P j \<in> project_name ` set ps"
  shows "available_name ps P = suffixed P n"
proof -
  from available_name_suffix [OF assms(1)] obtain k where k: "1 \<le> k"
    "available_name ps P = suffixed P k"
    "\<forall>j. 1 \<le> j \<and> j < k \<longrightarrow> suffixed P j \<in> project_name ` set ps"
    by blast
  have free: "suffixed P k \<notin> project_name ` set ps"
    using available_name_free [of ps P] k(2) by simp
  have "k = n"
  proof (rule ccontr)
    assume "k \<noteq> n"
    then consider "k < n" | "n < k" by linarith
    then show False
    proof cases
      case 1
      with assms(4) k(1) free show False by blast
    next
      case 2
      with k(3) assms(2,3) show False by blast
    qed
  qed
  with k show ?thesis by simp
qed

lemma import_project_Inr:
  assumes "import_project wod rus rp (m, tgt) = Inr (m', tgt')"
  shows "\<exists>saved. projects tgt' = projects tgt @ [saved] \<and>
           project_id saved = next_id tgt \<and>
           project_name saved = available_name (projects tgt) (strip (project_name rp)) \<and>
           m (project_ontology rp) = Some (project_ontology saved) \<and>
           m' = setitem m (project_id rp) (next_id tgt) \<and>
           next_id tgt' = Suc (next_id tgt)"
  using assms
  by (auto simp: import_project_def Let_def save_project_def getitem_Inr_iff
      split: sum.splits if_splits)

lemma import_project_succeeds:
  assumes "m (project_ontology rp) \<noteq> None"
    and "\<forall>u \<in> set rus. (str_of ''project_contributor'') \<in> set (user_roles u) \<or>
           (str_of ''project_manager'') \<in> set (user_roles u) \<longrightarrow> m (user_id u) \<noteq> None"
  shows "\<exists>m' tgt'. import_project wod rus rp (m, tgt) = Inr (m', tgt')"
proof -
  have g: "\<exists>vs. getitems m (map user_id (filter Q rus)) = Inr vs"
    if "\<forall>u \<in> set rus. Q u \<longrightarrow> m (user_id u) \<noteq> None" for Q
  proof (cases "getitems m (map user_id (filter Q rus))")
    case (Inl e)
    then obtain t where "t \<in> set (map user_id (filter Q rus))" "m t = None"
      by (blast dest: getitems_Inl)
    with that show ?thesis by auto
  next
    case (Inr vs)
    then show ?thesis by blast
  qed
  from g [of "\<lambda>u. (str_of ''project_contributor'') \<in> set (user_roles u)"] assms(2)
  obtain cs where cs: "getitems m (map user_id
      (filter (\<lambda>u. (str_of ''project_contributor'') \<in> set (user_roles u)) rus)) = Inr cs"
    by blast
  from g [of "\<lambda>u. (str_of ''project_manager'') \<in> set (user_roles u)"] assms(2)
  obtain ms where ms: "getitems m (map user_id
      (filter (\<lambda>u. (str_of ''project_manager'') \<in> set (user_roles u)) rus)) = Inr ms"
    by blast
  from assms(1) obtain ont where "m (project_ontology rp) = Some ont" by auto
  with cs ms show ?thesis
    by (simp add: import_project_def Let_def save_project_def getitem_def split: prod.splits)
qed

lemma suffixed_1_2: "suffixed P 1 = P @ str_of '' (1)''" "suffixed P 2 = P @ str_of '' (2)''"
  "suffixed P (Suc 0) = P @ str_of '' (1)''"
  by (simp_all add: suffixed_def py_str.simps digit_def)

lemma second_project_import:
  assumes P: "strip (project_name rp) = P"
    and taken: "P \<in> project_name ` set (projects tgt)"
    and free1: "P @ str_of '' (1)'' \<notin> project_name ` set (projects tgt)"
    and free2: "P @ str_of '' (2)'' \<notin> project_name ` set (projects tgt)"
    and first: "import_project wod rus rp (m, tgt) = Inr (m1, tgt1)"
    and second: "import_project wod rus rp (m2, tgt1) = Inr (m3, tgt2)"
  shows "map project_name (projects tgt2) =
           map project_name (projects tgt) @ [P @ str_of '' (1)'', P @ str_of '' (2)'']"
proof -
  from import_project_Inr [OF first] P obtain s1 where s1:
    "projects tgt1 = projects tgt @ [s1]"
    "project_name s1 = available_name (projects tgt) P"
    by auto
  have f1: "suffixed P 1 \<notin> project_name ` set (projects tgt)"
    using free1 by (simp add: suffixed_1_2)
  have "available_name (projects tgt) P = suffixed P 1"
  proof (rule available_name_least [OF taken _ f1])
    show "(1::nat) \<le> 1" by simp
    show "\<forall>j. 1 \<le> j \<and> j < 1 \<longrightarrow> suffixed P j \<in> project_name ` set (projects tgt)"
      by auto
  qed
  with s1 have n1: "project_name s1 = P @ str_of '' (1)''" by (simp add: suffixed_1_2)
  from import_project_Inr [OF second] P obtain s2 where s2:
    "projects tgt2 = projects tgt1 @ [s2]"
    "project_name s2 = available_name (projects tgt1) P"
    by auto
  have "available_name (projects tgt1) P = suffixed P 2"
  proof (rule available_name_least)
    show "P \<in> project_name ` set (projects tgt1)" using taken s1 by auto
    show "(1::nat) \<le> 2" by simp
    have "suffixed P 2 \<noteq> suffixed P 1" using suffixed_inj [of P 2 1] by auto
    moreover have "suffixed P 2 \<notin> project_name ` set (projects tgt)"
      using free2 by (simp add: suffixed_1_2)
    moreover have "project_name s1 = suffixed P 1" using n1 by (simp add: suffixed_1_2)
    ultimately show "suffixed P 2 \<notin> project_name ` set (projects tgt1)"
      using s1 by auto
    show "\<forall>j. 1 \<le> j \<and> j < 2 \<longrightarrow> suffixed P j \<in> project_name ` set (projects tgt1)"
    proof (intro allI impI)
      fix j :: nat
      assume "1 \<le> j \<and> j < 2"
      then have "j = 1" by simp
      moreover have "project_name s1 = suffixed P 1" using n1 by (simp add: suffixed_1_2)
      ultimately show "suffixed P j \<in> project_name ` set (projects tgt1)"
        using s1 by simp
    qed
  qed
  with s1 s2 n1 show ?thesis by (simp add: suffixed_1_2)
qed

text \<open>
  Claim C5. A successful project import always saves one new project, under the
  identifier the server gives it, and maps the snapshot project to it; it reuses none.
  The new project is named by \<^verbatim>\<open>available_name\<close>: the stripped snapshot name \<open>P\<close> when no
  target project bears it, and otherwise \<open>P (n)\<close> for the smallest \<open>n \<ge> 1\<close> that no target
  project bears. So on a target that has \<open>P\<close> but neither \<open>P (1)\<close> nor \<open>P (2)\<close>, a first
  import creates \<open>P (1)\<close> and a second import of the same snapshot creates \<open>P (2)\<close>. The
  import succeeds whenever the ontology, the contributors and the managers are mapped.
\<close>

theorem import_project_available_name:
  "(import_project wod rus rp (m, tgt) = Inr (m', tgt') \<longrightarrow>
      (\<exists>saved. projects tgt' = projects tgt @ [saved] \<and> project_id saved = next_id tgt \<and>
         project_name saved = available_name (projects tgt) (strip (project_name rp)) \<and>
         m' = setitem m (project_id rp) (project_id saved))) \<and>
   (m (project_ontology rp) \<noteq> None \<and>
    (\<forall>u \<in> set rus. (str_of ''project_contributor'') \<in> set (user_roles u) \<or>
       (str_of ''project_manager'') \<in> set (user_roles u) \<longrightarrow> m (user_id u) \<noteq> None) \<longrightarrow>
      (\<exists>m' tgt'. import_project wod rus rp (m, tgt) = Inr (m', tgt'))) \<and>
   (P \<notin> project_name ` set ps \<longrightarrow> available_name ps P = P) \<and>
   (P \<in> project_name ` set ps \<longrightarrow>
      (\<exists>n \<ge> 1. available_name ps P = P @ str_of '' ('' @ py_str n @ str_of '')'' \<and>
         P @ str_of '' ('' @ py_str n @ str_of '')'' \<notin> project_name ` set ps \<and>
         (\<forall>j. 1 \<le> j \<and> j < n \<longrightarrow> P @ str_of '' ('' @ py_str j @ str_of '')'' \<in> project_name ` set ps))) \<and>
   (strip (project_name rp) = P \<and> P \<in> project_name ` set (projects tgt) \<and>
    P @ str_of '' (1)'' \<notin> project_name ` set (projects tgt) \<and>
    P @ str_of '' (2)'' \<notin> project_name ` set (projects tgt) \<and>
    import_project wod rus rp (m, tgt) = Inr (ma, tgta) \<and>
    import_project wod rus rp (mb, tgta) = Inr (mc, tgtb) \<longrightarrow>
      map project_name (projects tgtb) =
        map project_name (projects tgt) @ [P @ str_of '' (1)'', P @ str_of '' (2)''])"
proof (intro conjI impI)
  assume "import_project wod rus rp (m, tgt) = Inr (m', tgt')"
  from import_project_Inr [OF this]
  show "\<exists>saved. projects tgt' = projects tgt @ [saved] \<and> project_id saved = next_id tgt \<and>
         project_name saved = available_name (projects tgt) (strip (project_name rp)) \<and>
         m' = setitem m (project_id rp) (project_id saved)"
    by auto
next
  assume "m (project_ontology rp) \<noteq> None \<and>
    (\<forall>u \<in> set rus. (str_of ''project_contributor'') \<in> set (user_roles u) \<or>
       (str_of ''project_manager'') \<in> set (user_roles u) \<longrightarrow> m (user_id u) \<noteq> None)"
  then show "\<exists>m' tgt'. import_project wod rus rp (m, tgt) = Inr (m', tgt')"
    by (intro import_project_succeeds) auto
next
  assume "P \<notin> project_name ` set ps"
  then show "available_name ps P = P" by (rule available_name_keeps)
next
  assume "P \<in> project_name ` set ps"
  from available_name_suffix [OF this] available_name_free [of ps P]
  show "\<exists>n \<ge> 1. available_name ps P = P @ str_of '' ('' @ py_str n @ str_of '')'' \<and>
         P @ str_of '' ('' @ py_str n @ str_of '')'' \<notin> project_name ` set ps \<and>
         (\<forall>j. 1 \<le> j \<and> j < n \<longrightarrow> P @ str_of '' ('' @ py_str j @ str_of '')'' \<in> project_name ` set ps)"
    by (auto simp: suffixed_def)
next
  assume "strip (project_name rp) = P \<and> P \<in> project_name ` set (projects tgt) \<and>
    P @ str_of '' (1)'' \<notin> project_name ` set (projects tgt) \<and>
    P @ str_of '' (2)'' \<notin> project_name ` set (projects tgt) \<and>
    import_project wod rus rp (m, tgt) = Inr (ma, tgta) \<and>
    import_project wod rus rp (mb, tgta) = Inr (mc, tgtb)"
  then show "map project_name (projects tgtb) =
        map project_name (projects tgt) @ [P @ str_of '' (1)'', P @ str_of '' (2)'']"
    by (intro second_project_import [of rp P tgt wod rus m ma tgta mb mc]) auto
qed

theorem import_project_available_name_witness:
  "map project_name (projects (snd (projr
     (import_project False example_remote_users example_remote_project
        ([6 \<mapsto> 60, 4 \<mapsto> 40], example_target))))) = [str_of ''P'', str_of ''P (1)''] \<and>
   map project_name (projects (snd (projr
     (import_project False example_remote_users example_remote_project
        ([6 \<mapsto> 60, 4 \<mapsto> 40], snd (projr
     (import_project False example_remote_users example_remote_project
        ([6 \<mapsto> 60, 4 \<mapsto> 40], example_target)))))))) = [str_of ''P'', str_of ''P (1)'', str_of ''P (2)''] \<and>
   available_name [] (str_of ''P'') = str_of ''P''"
  using import_project_available_name [where wod = False and rus = example_remote_users
      and rp = example_remote_project and m = "[6 \<mapsto> 60, 4 \<mapsto> 40]" and tgt = example_target
      and m' = "fst (projr (import_project False example_remote_users example_remote_project
        ([6 \<mapsto> 60, 4 \<mapsto> 40], example_target)))"
      and tgt' = "snd (projr (import_project False example_remote_users example_remote_project
        ([6 \<mapsto> 60, 4 \<mapsto> 40], example_target)))"
      and ma = "fst (projr (import_project False example_remote_users example_remote_project
        ([6 \<mapsto> 60, 4 \<mapsto> 40], example_target)))"
      and tgta = "snd (projr (import_project False example_remote_users example_remote_project
        ([6 \<mapsto> 60, 4 \<mapsto> 40], example_target)))"
      and mb = "[6 \<mapsto> 60, 4 \<mapsto> 40]"
      and mc = "fst (projr (import_project False example_remote_users example_remote_project
        ([6 \<mapsto> 60, 4 \<mapsto> 40], snd (projr
     (import_project False example_remote_users example_remote_project
        ([6 \<mapsto> 60, 4 \<mapsto> 40], example_target))))))"
      and tgtb = "snd (projr (import_project False example_remote_users example_remote_project
        ([6 \<mapsto> 60, 4 \<mapsto> 40], snd (projr
     (import_project False example_remote_users example_remote_project
        ([6 \<mapsto> 60, 4 \<mapsto> 40], example_target))))))"
      and P = "str_of ''P''" and ps = "[]"]
  by (simp add: example_defs import_project_def available_name_def available_name_loop.simps
      save_project_def getitem_def setitem_def strip_def is_space_def suffixed_def
      py_str.simps digit_def Let_def)


section \<open>Properties of the ontology import\<close>

lemma setitems_append: "setitems m (xs @ ys) = setitems (setitems m xs) ys"
  by (induction m xs rule: setitems.induct) auto

lemma import_terms_Inr:
  "import_terms wod rts (m, tgt) = Inr (m', tgt') \<Longrightarrow>
   \<exists>created. terms tgt' = terms tgt @ created \<and>
     list_all2 (\<lambda>rt c. term_name c = term_name rt \<and> term_color c = term_color rt \<and>
                 term_parent c = None \<and> m' (term_id rt) \<noteq> None) rts created \<and>
     map term_id created = [next_id tgt..<next_id tgt + length rts] \<and>
     calls tgt' = calls tgt @ map SaveTerm created \<and>
     ontologies tgt' = ontologies tgt \<and> relation_terms tgt' = relation_terms tgt \<and>
     users tgt' = users tgt \<and> projects tgt' = projects tgt \<and>
     next_id tgt' = next_id tgt + length rts \<and>
     m' = setitems m (zip (map term_id rts) (map term_id created)) \<and>
     ((\<forall>rt \<in> set rts. term_ontology rt = k) \<and> k \<notin> term_id ` set rts \<and> m k = Some v \<longrightarrow>
        (\<forall>c \<in> set created. term_ontology c = v) \<and> m' k = Some v)"
proof (induction rts arbitrary: m tgt)
  case Nil
  then show ?case by simp
next
  case (Cons rt rest)
  from Cons.prems obtain ont where ont: "m (term_ontology rt) = Some ont"
    by (auto simp: getitem_def split: option.splits)
  define t2 where "t2 = (if \<not> wod
      then rt\<lparr>term_ontology := ont, term_parent := None, term_created := None, term_updated := None\<rparr>
      else rt\<lparr>term_ontology := ont, term_parent := None\<rparr>)"
  define saved where "saved = t2\<lparr>term_id := next_id tgt\<rparr>"
  define tgt1 where "tgt1 = tgt\<lparr>terms := terms tgt @ [saved], next_id := Suc (next_id tgt),
      calls := calls tgt @ [SaveTerm saved]\<rparr>"
  define m1 where "m1 = setitem m (term_id rt) (term_id saved)"
  have step: "import_terms wod (rt # rest) (m, tgt) = import_terms wod rest (m1, tgt1)"
    using ont by (simp add: getitem_def save_term_def Let_def t2_def saved_def tgt1_def m1_def)
  with Cons.prems have "import_terms wod rest (m1, tgt1) = Inr (m', tgt')" by simp
  from Cons.IH [OF this] obtain created where c:
    "terms tgt' = terms tgt1 @ created"
    "list_all2 (\<lambda>rt c. term_name c = term_name rt \<and> term_color c = term_color rt \<and>
                 term_parent c = None \<and> m' (term_id rt) \<noteq> None) rest created"
    "map term_id created = [next_id tgt1..<next_id tgt1 + length rest]"
    "calls tgt' = calls tgt1 @ map SaveTerm created"
    "ontologies tgt' = ontologies tgt1" "relation_terms tgt' = relation_terms tgt1"
    "users tgt' = users tgt1" "projects tgt' = projects tgt1"
    "next_id tgt' = next_id tgt1 + length rest"
    "m' = setitems m1 (zip (map term_id rest) (map term_id created))"
    "(\<forall>rt \<in> set rest. term_ontology rt = k) \<and> k \<notin> term_id ` set rest \<and> m1 k = Some v \<longrightarrow>
        (\<forall>c \<in> set created. term_ontology c = v) \<and> m' k = Some v"
    by blast
  have sv: "term_name saved = term_name rt" "term_color saved = term_color rt"
    "term_parent saved = None" "term_id saved = next_id tgt" "term_ontology saved = ont"
    by (simp_all add: saved_def t2_def)
  have dom: "m' (term_id rt) \<noteq> None"
  proof (cases "term_id rt \<in> set (map term_id rest)")
    case True
    then obtain r where "r \<in> set rest" "term_id r = term_id rt" by auto
    with c(2) show ?thesis
      by (auto simp: list_all2_conv_all_nth in_set_conv_nth)
  next
    case False
    then have "term_id rt \<notin> fst ` set (zip (map term_id rest) (map term_id created))"
      by (auto dest: set_zip_leftD)
    then show ?thesis by (simp add: c(10) setitems_other m1_def setitem_def)
  qed
  show ?case
  proof (intro exI [of _ "saved # created"] conjI impI)
    show "terms tgt' = terms tgt @ saved # created" using c(1) by (simp add: tgt1_def)
    show "list_all2 (\<lambda>rt c. term_name c = term_name rt \<and> term_color c = term_color rt \<and>
                 term_parent c = None \<and> m' (term_id rt) \<noteq> None) (rt # rest) (saved # created)"
      using c(2) sv dom by simp
    show "map term_id (saved # created) = [next_id tgt..<next_id tgt + length (rt # rest)]"
      using c(3) sv by (simp add: tgt1_def upt_conv_Cons del: upt_Suc)
    show "calls tgt' = calls tgt @ map SaveTerm (saved # created)"
      using c(4) by (simp add: tgt1_def)
    show "ontologies tgt' = ontologies tgt" using c(5) by (simp add: tgt1_def)
    show "relation_terms tgt' = relation_terms tgt" using c(6) by (simp add: tgt1_def)
    show "users tgt' = users tgt" using c(7) by (simp add: tgt1_def)
    show "projects tgt' = projects tgt" using c(8) by (simp add: tgt1_def)
    show "next_id tgt' = next_id tgt + length (rt # rest)" using c(9) by (simp add: tgt1_def)
    show "m' = setitems m (zip (map term_id (rt # rest)) (map term_id (saved # created)))"
      using c(10) by (simp add: m1_def)
  next
    assume a: "(\<forall>rt \<in> set (rt # rest). term_ontology rt = k) \<and>
      k \<notin> term_id ` set (rt # rest) \<and> m k = Some v"
    then have "m1 k = Some v" by (auto simp: m1_def setitem_def)
    with a c(11) have "(\<forall>c \<in> set created. term_ontology c = v) \<and> m' k = Some v" by auto
    moreover from a ont have "ont = v" by auto
    ultimately show "\<forall>c \<in> set (saved # created). term_ontology c = v" "m' k = Some v"
      using sv by auto
  qed
qed

lemma import_relation_terms_Inr:
  "import_relation_terms m pcs tgt = Inr tgt' \<Longrightarrow>
   \<exists>rels. relation_terms tgt' = relation_terms tgt @ rels \<and>
     calls tgt' = calls tgt @ map (\<lambda>(p, c). SaveRelationTerm p c) rels \<and>
     map (\<lambda>(p, c). (Some p, Some c)) rels =
       map (\<lambda>(p, c). (m (the p), m c)) (filter (\<lambda>(p, c). p \<noteq> None \<and> p \<noteq> Some 0) pcs) \<and>
     ontologies tgt' = ontologies tgt \<and> terms tgt' = terms tgt \<and>
     users tgt' = users tgt \<and> projects tgt' = projects tgt \<and> next_id tgt' = next_id tgt"
proof (induction m pcs tgt rule: import_relation_terms.induct)
  case (1 m tgt)
  then show ?case by simp
next
  case (2 m parent child rest tgt)
  show ?case
  proof (cases "parent = None \<or> parent = Some 0")
    case True
    with 2 show ?thesis by auto
  next
    case False
    then obtain pv where pv: "parent = Some pv" "pv \<noteq> 0" by auto
    with "2.prems" obtain p c where pc: "m (the parent) = Some p" "m child = Some c"
      by (auto simp: getitem_def split: option.splits)
    with pv "2.prems"
    have "import_relation_terms m rest (save_relation_term tgt p c) = Inr tgt'"
      by (simp add: getitem_def)
    moreover have "getitem m (the parent) = Inr p" "getitem m child = Inr c"
      using pc by (simp_all add: getitem_def)
    ultimately have "\<exists>rels. relation_terms tgt' = relation_terms (save_relation_term tgt p c) @ rels \<and>
     calls tgt' = calls (save_relation_term tgt p c) @ map (\<lambda>(p, c). SaveRelationTerm p c) rels \<and>
     map (\<lambda>(p, c). (Some p, Some c)) rels =
       map (\<lambda>(p, c). (m (the p), m c)) (filter (\<lambda>(p, c). p \<noteq> None \<and> p \<noteq> Some 0) rest) \<and>
     ontologies tgt' = ontologies (save_relation_term tgt p c) \<and>
     terms tgt' = terms (save_relation_term tgt p c) \<and>
     users tgt' = users (save_relation_term tgt p c) \<and>
     projects tgt' = projects (save_relation_term tgt p c) \<and>
     next_id tgt' = next_id (save_relation_term tgt p c)"
      using False by (intro "2.IH"(2)) auto
    then obtain rels where r:
      "relation_terms tgt' = relation_terms (save_relation_term tgt p c) @ rels"
      "calls tgt' = calls (save_relation_term tgt p c) @ map (\<lambda>(p, c). SaveRelationTerm p c) rels"
      "map (\<lambda>(p, c). (Some p, Some c)) rels =
         map (\<lambda>(p, c). (m (the p), m c)) (filter (\<lambda>(p, c). p \<noteq> None \<and> p \<noteq> Some 0) rest)"
      "ontologies tgt' = ontologies (save_relation_term tgt p c)"
      "terms tgt' = terms (save_relation_term tgt p c)"
      "users tgt' = users (save_relation_term tgt p c)"
      "projects tgt' = projects (save_relation_term tgt p c)"
      "next_id tgt' = next_id (save_relation_term tgt p c)"
      by blast
    show ?thesis
      using r pc False
      by (intro exI [of _ "(p, c) # rels"]) (simp add: save_relation_term_def)
  qed
qed

lemma strip_no_space:
  "strip s = [] \<or> (\<not> is_space (hd (strip s)) \<and> \<not> is_space (last (strip s)))"
proof (cases "strip s = []")
  case True
  then show ?thesis by simp
next
  case False
  define a where "a = dropWhile is_space s"
  define b where "b = dropWhile is_space (rev a)"
  have s: "strip s = rev b" by (simp add: strip_def a_def b_def)
  with False have b: "b \<noteq> []" by simp
  then have hb: "\<not> is_space (hd b)" unfolding b_def by (rule hd_dropWhile)
  have "rev a = takeWhile is_space (rev a) @ b" by (simp add: b_def)
  then have "last (rev a) = last b" using b by (metis last_appendR)
  moreover have "a \<noteq> []" using b by (auto simp: b_def)
  ultimately have "last b = hd a" by (simp add: last_rev)
  moreover have "\<not> is_space (hd a)" using \<open>a \<noteq> []\<close> unfolding a_def by (rule hd_dropWhile)
  ultimately show ?thesis using hb b by (simp add: s hd_rev last_rev)
qed

lemma strip_fixed:
  "s = [] \<or> (\<not> is_space (hd s) \<and> \<not> is_space (last s)) \<Longrightarrow> strip s = s"
proof (cases "s = []")
  case True
  then show ?thesis by (simp add: strip_def)
next
  case False
  assume "s = [] \<or> (\<not> is_space (hd s) \<and> \<not> is_space (last s))"
  with False have h: "\<not> is_space (hd s)" "\<not> is_space (last s)" by auto
  from False h(1) have "dropWhile is_space s = s" by (cases s) auto
  moreover from False h(2) have "dropWhile is_space (rev s) = rev s"
    by (cases "rev s") (auto simp: last_rev [symmetric] hd_rev)
  ultimately show ?thesis by (simp add: strip_def)
qed

lemma strip_idem: "strip (strip s) = strip s"
  using strip_no_space [of s] by (rule strip_fixed)


lemma suffixed_neq_base: "suffixed s n \<noteq> s"
  by (simp add: suffixed_def)

text \<open>What the renaming loop returns.\<close>

lemma find_ontology_spec:
  "find_ontology os ts rts base name i = (r, ex) \<Longrightarrow>
   ontology_exists os ts rts r = (True, ex) \<and>
   (r = name \<or>
    (fst (ontology_exists os ts rts name) = False \<and>
     (\<exists>n \<ge> i. r = suffixed base n \<and>
        (\<forall>j. i \<le> j \<and> j < n \<longrightarrow> fst (ontology_exists os ts rts (suffixed base j)) = False))))"
proof (induction os ts rts base name i rule: find_ontology.induct)
  case (1 os ts rts base name i)
  show ?case
  proof (cases "fst (ontology_exists os ts rts name)")
    case True
    then obtain e where e: "ontology_exists os ts rts name = (True, e)"
      by (cases "ontology_exists os ts rts name") auto
    with "1.prems" have "r = name" "ex = e"
      by (subst (asm) find_ontology.simps, simp)+
    with e show ?thesis by simp
  next
    case False
    then obtain e where e: "ontology_exists os ts rts name = (False, e)"
      by (cases "ontology_exists os ts rts name") auto
    with "1.prems" have rec: "find_ontology os ts rts base (suffixed base i) (i + 1) = (r, ex)"
      by (subst (asm) find_ontology.simps) simp
    from "1.IH" [OF e [symmetric] _ rec] have IH:
      "ontology_exists os ts rts r = (True, ex)"
      "r = suffixed base i \<or>
       (fst (ontology_exists os ts rts (suffixed base i)) = False \<and>
       (\<exists>n \<ge> i + 1. r = suffixed base n \<and>
        (\<forall>j. i + 1 \<le> j \<and> j < n \<longrightarrow> fst (ontology_exists os ts rts (suffixed base j)) = False)))"
      by auto
    have "\<exists>n \<ge> i. r = suffixed base n \<and>
        (\<forall>j. i \<le> j \<and> j < n \<longrightarrow> fst (ontology_exists os ts rts (suffixed base j)) = False)"
      using IH(2)
    proof
      assume "r = suffixed base i"
      then show ?thesis by (intro exI [of _ i]) auto
    next
      assume a: "fst (ontology_exists os ts rts (suffixed base i)) = False \<and>
       (\<exists>n \<ge> i + 1. r = suffixed base n \<and>
        (\<forall>j. i + 1 \<le> j \<and> j < n \<longrightarrow> fst (ontology_exists os ts rts (suffixed base j)) = False))"
      then obtain n where n: "i + 1 \<le> n" "r = suffixed base n"
        "\<forall>j. i + 1 \<le> j \<and> j < n \<longrightarrow> fst (ontology_exists os ts rts (suffixed base j)) = False"
        by blast
      have "fst (ontology_exists os ts rts (suffixed base j)) = False" if "i \<le> j" "j < n" for j
        using that n(3) a by (cases "j = i") auto
      with n show ?thesis by (intro exI [of _ n]) auto
    qed
    with IH(1) False show ?thesis by simp
  qed
qed

text \<open>What \<^verbatim>\<open>ontology_exists\<close> returns.\<close>

lemma ontology_exists_Some:
  "ontology_exists os ts rts name = (True, Some ex) \<longleftrightarrow>
   find_first (filter (\<lambda>ont. ont_name ont = strip name) os) = Some ex \<and>
   term_pairs rts \<subseteq> term_pairs (filter (\<lambda>t. term_ontology t = ont_id ex) ts)"
  by (auto simp: ontology_exists_def term_pairs_def Let_def filter_empty_conv
      split: option.splits)

lemma find_first_filter_None:
  "find_first (filter P xs) = None \<longleftrightarrow> (\<forall>x \<in> set xs. \<not> P x)"
proof (cases "filter P xs")
  case Nil
  then show ?thesis by (simp add: find_first_def filter_empty_conv)
next
  case (Cons y ys)
  then have "y \<in> set (filter P xs)" by simp
  then have "y \<in> set xs \<and> P y" by simp
  then have "\<exists>x \<in> set xs. P x" by blast
  moreover have "find_first (filter P xs) \<noteq> None" by (simp add: Cons find_first_def)
  ultimately show ?thesis by auto
qed


lemma setitems_distinct:
  "distinct (map fst kvs) \<Longrightarrow> (k, v) \<in> set kvs \<Longrightarrow> setitems m kvs k = Some v"
proof (induction m kvs rule: setitems.induct)
  case (1 m)
  then show ?case by simp
next
  case (2 m k' v' kvs)
  show ?case
  proof (cases "(k, v) \<in> set kvs")
    case True
    with 2 show ?thesis by simp
  next
    case False
    with "2.prems" have "k' = k" "v' = v" "k \<notin> fst ` set kvs" by auto
    then show ?thesis by (simp add: setitems_other setitem_def)
  qed
qed

lemma map_terms_Inr:
  "\<forall>rt \<in> set rts. \<exists>t \<in> set ots. term_name t = term_name rt \<Longrightarrow>
   map_terms ots rts m =
     Inr (setitems m (map (\<lambda>rt. (term_id rt,
       term_id (the (find_first (filter (\<lambda>t. term_name t = term_name rt) ots))))) rts))"
proof (induction rts arbitrary: m)
  case Nil
  then show ?case by simp
next
  case (Cons rt rest)
  then obtain t where "find_first (filter (\<lambda>t. term_name t = term_name rt) ots) = Some t"
    by (cases "find_first (filter (\<lambda>t. term_name t = term_name rt) ots)")
      (auto simp: find_first_filter_None)
  with Cons show ?case by simp
qed

lemma term_pairs_names:
  "term_pairs rts \<subseteq> term_pairs ots \<Longrightarrow> \<forall>rt \<in> set rts. \<exists>t \<in> set ots. term_name t = term_name rt"
  by (fastforce simp: term_pairs_def)

lemma find_ontology_existing:
  assumes "existing_ontology tgt ro rts = Some ex"
  shows "find_first (filter (\<lambda>ont. ont_name ont = strip (final_name tgt ro rts))
            (ontologies tgt)) = Some ex"
    and "term_pairs rts \<subseteq> term_pairs (terms_of tgt (ont_id ex))"
    and "final_name tgt ro rts = strip (ont_name ro) \<or>
         (\<exists>n \<ge> 1. final_name tgt ro rts = suffixed (strip (ont_name ro)) n)"
proof -
  let ?S = "strip (ont_name ro)"
  have f: "find_ontology (ontologies tgt) (terms tgt) rts ?S ?S 1
     = (final_name tgt ro rts, Some ex)"
    using assms by (simp add: final_name_def existing_ontology_def prod_eq_iff)
  from find_ontology_spec [OF f]
  have e: "ontology_exists (ontologies tgt) (terms tgt) rts (final_name tgt ro rts)
      = (True, Some ex)"
    and n: "final_name tgt ro rts = ?S \<or> (\<exists>n \<ge> 1. final_name tgt ro rts = suffixed ?S n)"
    by auto
  from e show "find_first (filter (\<lambda>ont. ont_name ont = strip (final_name tgt ro rts))
            (ontologies tgt)) = Some ex"
    and "term_pairs rts \<subseteq> term_pairs (terms_of tgt (ont_id ex))"
    by (simp_all add: ontology_exists_Some terms_of_def)
  from n show "final_name tgt ro rts = ?S \<or> (\<exists>n \<ge> 1. final_name tgt ro rts = suffixed ?S n)" .
qed

lemma ontology_reused:
  assumes ex: "existing_ontology tgt ro rts = Some ex" and u: "m (ont_user ro) = Some u"
  shows "import_ontology wod ro rts (m, tgt) =
     Inr (setitems (setitem m (ont_id ro) (ont_id ex))
            (map (\<lambda>rt. (term_id rt, term_id (the (find_first
               (filter (\<lambda>t. term_name t = term_name rt) (terms_of tgt (ont_id ex))))))) rts),
          tgt\<lparr>calls := calls tgt @ [ConnectAs u, ConnectAdmin]\<rparr>)"
proof -
  let ?S = "strip (ont_name ro)"
  have f: "find_ontology (ontologies tgt) (terms tgt) rts ?S ?S 1
     = (final_name tgt ro rts, Some ex)"
    using ex by (simp add: final_name_def existing_ontology_def prod_eq_iff)
  have "\<forall>rt \<in> set rts. \<exists>t \<in> set (terms_of tgt (ont_id ex)). term_name t = term_name rt"
    using find_ontology_existing(2) [OF ex] by (rule term_pairs_names)
  from map_terms_Inr [OF this] f u show ?thesis
    by (simp add: import_ontology_def Let_def getitem_def connect_as_def
        connect_as_super_admin_def terms_of_def)
qed

lemma replayed_relations_map:
  "map (\<lambda>(p, c). (m (the p), m c))
     (filter (\<lambda>(p, c). p \<noteq> None \<and> p \<noteq> Some 0) (map (\<lambda>t. (term_parent t, term_id t)) rts))
   = map (\<lambda>(p, c). (m p, m c)) (replayed_relations rts)"
  by (induction rts) (auto simp: replayed_relations_def)

lemma ontology_created:
  assumes ex: "existing_ontology tgt ro rts = None"
    and ok: "import_ontology wod ro rts (m, tgt) = Inr (m', tgt')"
  shows "\<exists>u saved created rels.
     m (ont_user ro) = Some u \<and>
     saved = (if \<not> wod
        then ro\<lparr>ont_name := final_name tgt ro rts, ont_user := u,
               ont_created := None, ont_updated := None, ont_id := next_id tgt\<rparr>
        else ro\<lparr>ont_name := final_name tgt ro rts, ont_user := u, ont_id := next_id tgt\<rparr>) \<and>
     ontologies tgt' = ontologies tgt @ [saved] \<and>
     terms tgt' = terms tgt @ created \<and>
     list_all2 (\<lambda>rt c. term_name c = term_name rt \<and> term_color c = term_color rt \<and>
                 term_parent c = None \<and> m' (term_id rt) \<noteq> None) rts created \<and>
     map term_id created = [Suc (next_id tgt)..<Suc (next_id tgt) + length rts] \<and>
     relation_terms tgt' = relation_terms tgt @ rels \<and>
     map (\<lambda>(p, c). (Some p, Some c)) rels = map (\<lambda>(p, c). (m' p, m' c)) (replayed_relations rts) \<and>
     calls tgt' = calls tgt @ [ConnectAs u, SaveOntology saved] @ map SaveTerm created @
        map (\<lambda>(p, c). SaveRelationTerm p c) rels @ [ConnectAdmin] \<and>
     users tgt' = users tgt \<and> projects tgt' = projects tgt \<and>
     next_id tgt' = Suc (next_id tgt) + length rts \<and>
     m' = setitems (setitem m (ont_id ro) (next_id tgt))
            (zip (map term_id rts) (map term_id created)) \<and>
     ((\<forall>rt \<in> set rts. term_ontology rt = ont_id ro) \<and> ont_id ro \<notin> term_id ` set rts \<longrightarrow>
        (\<forall>c \<in> set created. term_ontology c = next_id tgt) \<and> m' (ont_id ro) = Some (next_id tgt))"
proof -
  let ?S = "strip (ont_name ro)"
  have f: "find_ontology (ontologies tgt) (terms tgt) rts ?S ?S 1
     = (final_name tgt ro rts, None)"
    using ex by (simp add: final_name_def existing_ontology_def prod_eq_iff)
  from ok f obtain u where u: "m (ont_user ro) = Some u"
    by (auto simp: import_ontology_def Let_def getitem_def split: option.splits)
  define saved where "saved = (if \<not> wod
        then ro\<lparr>ont_name := final_name tgt ro rts, ont_user := u,
               ont_created := None, ont_updated := None, ont_id := next_id tgt\<rparr>
        else ro\<lparr>ont_name := final_name tgt ro rts, ont_user := u, ont_id := next_id tgt\<rparr>)"
  define tgt2 where "tgt2 = tgt\<lparr>ontologies := ontologies tgt @ [saved],
     next_id := Suc (next_id tgt), calls := calls tgt @ [ConnectAs u, SaveOntology saved]\<rparr>"
  define m1 where "m1 = setitem m (ont_id ro) (next_id tgt)"
  have unfold: "import_ontology wod ro rts (m, tgt) =
    (case import_terms wod rts (m1, tgt2) of
       Inl e \<Rightarrow> Inl e
     | Inr (m2, tgt3) \<Rightarrow>
         (case import_relation_terms m2 (map (\<lambda>t. (term_parent t, term_id t)) rts) tgt3 of
            Inl e \<Rightarrow> Inl e
          | Inr tgt4 \<Rightarrow> Inr (m2, connect_as_super_admin tgt4)))"
    using f u
    by (simp add: import_ontology_def Let_def getitem_def connect_as_def save_ontology_def
        saved_def tgt2_def m1_def)
  with ok obtain tgt3 tgt4 where
    t: "import_terms wod rts (m1, tgt2) = Inr (m', tgt3)" and
    r: "import_relation_terms m' (map (\<lambda>t. (term_parent t, term_id t)) rts) tgt3 = Inr tgt4" and
    e: "tgt' = connect_as_super_admin tgt4"
    by (auto split: sum.splits)
  from import_terms_Inr [OF t, of "ont_id ro" "next_id tgt"] obtain created where c:
    "terms tgt3 = terms tgt2 @ created"
    "list_all2 (\<lambda>rt c. term_name c = term_name rt \<and> term_color c = term_color rt \<and>
                 term_parent c = None \<and> m' (term_id rt) \<noteq> None) rts created"
    "map term_id created = [next_id tgt2..<next_id tgt2 + length rts]"
    "calls tgt3 = calls tgt2 @ map SaveTerm created"
    "ontologies tgt3 = ontologies tgt2" "relation_terms tgt3 = relation_terms tgt2"
    "users tgt3 = users tgt2" "projects tgt3 = projects tgt2"
    "next_id tgt3 = next_id tgt2 + length rts"
    "m' = setitems m1 (zip (map term_id rts) (map term_id created))"
    "(\<forall>rt \<in> set rts. term_ontology rt = ont_id ro) \<and> ont_id ro \<notin> term_id ` set rts \<and>
       m1 (ont_id ro) = Some (next_id tgt) \<longrightarrow>
        (\<forall>c \<in> set created. term_ontology c = next_id tgt) \<and> m' (ont_id ro) = Some (next_id tgt)"
    by blast
  from import_relation_terms_Inr [OF r] obtain rels where rl:
    "relation_terms tgt4 = relation_terms tgt3 @ rels"
    "calls tgt4 = calls tgt3 @ map (\<lambda>(p, c). SaveRelationTerm p c) rels"
    "map (\<lambda>(p, c). (Some p, Some c)) rels =
       map (\<lambda>(p, c). (m' (the p), m' c))
         (filter (\<lambda>(p, c). p \<noteq> None \<and> p \<noteq> Some 0) (map (\<lambda>t. (term_parent t, term_id t)) rts))"
    "ontologies tgt4 = ontologies tgt3" "terms tgt4 = terms tgt3"
    "users tgt4 = users tgt3" "projects tgt4 = projects tgt3" "next_id tgt4 = next_id tgt3"
    by blast
  have m1k: "m1 (ont_id ro) = Some (next_id tgt)" by (simp add: m1_def setitem_def)
  show ?thesis
    apply (intro exI [of _ u] exI [of _ saved] exI [of _ created] exI [of _ rels] conjI)
    subgoal by (rule u)
    subgoal by (rule saved_def)
    subgoal using rl(4) c(5) by (simp add: e connect_as_super_admin_def tgt2_def)
    subgoal using rl(5) c(1) by (simp add: e connect_as_super_admin_def tgt2_def)
    subgoal by (rule c(2))
    subgoal using c(3) by (simp add: tgt2_def)
    subgoal using rl(1) c(6) by (simp add: e connect_as_super_admin_def tgt2_def)
    subgoal using rl(3) by (simp only: replayed_relations_map)
    subgoal using rl(2) c(4) by (simp add: e connect_as_super_admin_def tgt2_def)
    subgoal using rl(6) c(7) by (simp add: e connect_as_super_admin_def tgt2_def)
    subgoal using rl(7) c(8) by (simp add: e connect_as_super_admin_def tgt2_def)
    subgoal using rl(8) c(9) by (simp add: e connect_as_super_admin_def tgt2_def)
    subgoal using c(10) by (simp add: m1_def)
    subgoal using c(11) m1k by simp
    done
qed

lemma find_ontology_found:
  "fst (ontology_exists os ts rts name) \<Longrightarrow>
   find_ontology os ts rts base name i = (name, snd (ontology_exists os ts rts name))"
  by (subst find_ontology.simps) (auto split: prod.splits)

lemma find_ontology_next:
  "\<not> fst (ontology_exists os ts rts name) \<Longrightarrow>
   find_ontology os ts rts base name i = find_ontology os ts rts base (suffixed base i) (i + 1)"
  by (subst find_ontology.simps) (auto split: prod.splits)

lemmas ontology_eval = import_ontology_def find_ontology_found find_ontology_next
  ontology_exists_def find_first_def save_ontology_def save_term_def save_relation_term_def
  connect_as_def connect_as_super_admin_def getitem_def setitem_def strip_def is_space_def
  suffixed_def py_str.simps digit_def Let_def existing_ontology_def final_name_def

text \<open>
  Claim C9. When the import creates a new ontology and succeeds, the calls it makes
  are, in this order: the connection as the ontology's creator, the save of the
  ontology, the save of one term for every snapshot term in the snapshot's order (same
  name and color), then the save of the relations, then the connection back to the
  super admin. So every term is saved before the first relation is, and the relations
  are computed from the mapping as it stands after the term loop, in which every
  snapshot term is mapped. The relations saved are those of the snapshot terms whose
  parent is neither null nor \<open>0\<close>, in order; a term with a null parent gives none.
\<close>

theorem import_ontology_create_order:
  assumes "existing_ontology tgt ro rts = None"
    and "import_ontology wod ro rts (m, tgt) = Inr (m', tgt')"
  shows "\<exists>u saved created rels.
     calls tgt' = calls tgt @ [ConnectAs u, SaveOntology saved] @ map SaveTerm created @
        map (\<lambda>(p, c). SaveRelationTerm p c) rels @ [ConnectAdmin] \<and>
     terms tgt' = terms tgt @ created \<and>
     map term_name created = map term_name rts \<and>
     map term_color created = map term_color rts \<and>
     (\<forall>rt \<in> set rts. m' (term_id rt) \<noteq> None) \<and>
     relation_terms tgt' = relation_terms tgt @ rels \<and>
     map (\<lambda>(p, c). (Some p, Some c)) rels =
       map (\<lambda>(p, c). (m' p, m' c)) (replayed_relations rts) \<and>
     length rels = length (filter (\<lambda>t. term_parent t \<noteq> None \<and> term_parent t \<noteq> Some 0) rts)"
proof -
  from ontology_created [OF assms] obtain u saved created rels where c:
    "terms tgt' = terms tgt @ created"
    "list_all2 (\<lambda>rt c. term_name c = term_name rt \<and> term_color c = term_color rt \<and>
                 term_parent c = None \<and> m' (term_id rt) \<noteq> None) rts created"
    "relation_terms tgt' = relation_terms tgt @ rels"
    "map (\<lambda>(p, c). (Some p, Some c)) rels = map (\<lambda>(p, c). (m' p, m' c)) (replayed_relations rts)"
    "calls tgt' = calls tgt @ [ConnectAs u, SaveOntology saved] @ map SaveTerm created @
        map (\<lambda>(p, c). SaveRelationTerm p c) rels @ [ConnectAdmin]"
    by blast
  from c(2) have n: "map term_name created = map term_name rts"
    "map term_color created = map term_color rts" "\<forall>rt \<in> set rts. m' (term_id rt) \<noteq> None"
    by (induction rts created rule: list_all2_induct) auto
  from c(4) have "length (map (\<lambda>(p, c). (Some p, Some c)) rels) =
      length (map (\<lambda>(p, c). (m' p, m' c)) (replayed_relations rts))" by simp
  then have "length rels =
      length (filter (\<lambda>t. term_parent t \<noteq> None \<and> term_parent t \<noteq> Some 0) rts)"
    by (simp add: replayed_relations_def)
  with c n show ?thesis by blast
qed

theorem import_ontology_create_order_witness:
  "existing_ontology example_target example_remote_ontology example_remote_terms = None \<and>
   calls (snd (projr (import_ontology False example_remote_ontology example_remote_terms
      ([4 \<mapsto> 40], example_target)))) =
     [ConnectAs 40,
      SaveOntology \<lparr>ont_id = 100, ont_name = str_of ''O (1)'', ont_user = 40, ont_created = None,
        ont_updated = None\<rparr>,
      SaveTerm \<lparr>term_id = 101, term_name = str_of ''cell'', term_color = str_of ''red'', term_ontology = 100,
        term_parent = None, term_created = None, term_updated = None\<rparr>,
      SaveTerm \<lparr>term_id = 102, term_name = str_of ''nucleus'', term_color = str_of ''blue'',
        term_ontology = 100, term_parent = None, term_created = None, term_updated = None\<rparr>,
      SaveRelationTerm 101 102, ConnectAdmin]"
  using import_ontology_create_order [where tgt = example_target
      and ro = example_remote_ontology and rts = example_remote_terms and wod = False
      and m = "[4 \<mapsto> 40]"
      and m' = "fst (projr (import_ontology False example_remote_ontology example_remote_terms
      ([4 \<mapsto> 40], example_target)))"
      and tgt' = "snd (projr (import_ontology False example_remote_ontology example_remote_terms
      ([4 \<mapsto> 40], example_target)))"]
  by (simp add: example_defs ontology_eval)

text \<open>
  Claim C1, as stated, fails. The target holds an ontology \<open>O\<close> whose terms differ from
  the snapshot's and an ontology \<open>O (1)\<close> with the snapshot's terms. The import of the
  snapshot ontology \<open>O\<close> reuses \<open>O (1)\<close> (no ontology and no term is created), although
  no target ontology has the snapshot's name and the snapshot's set of (name, color)
  pairs.
\<close>

theorem import_ontology_reuse_counterexample:
  "existing_ontology example_target_renamed example_remote_ontology example_remote_terms =
     Some \<lparr>ont_id = 62, ont_name = str_of ''O (1)'', ont_user = 40, ont_created = None,
           ont_updated = None\<rparr> \<and>
   ontologies (snd (projr (import_ontology False example_remote_ontology example_remote_terms
      ([4 \<mapsto> 40], example_target_renamed)))) = ontologies example_target_renamed \<and>
   terms (snd (projr (import_ontology False example_remote_ontology example_remote_terms
      ([4 \<mapsto> 40], example_target_renamed)))) = terms example_target_renamed \<and>
   \<not> reusable_as_specified example_target_renamed example_remote_ontology example_remote_terms"
  by (simp add: example_defs ontology_eval reusable_as_specified_def term_pairs_def terms_of_def
      map_terms.simps)

lemma existing_ontology_same_name:
  assumes "find_first (filter (\<lambda>ont. ont_name ont = strip (ont_name ro)) (ontologies tgt)) = Some ex"
    and "term_pairs rts \<subseteq> term_pairs (terms_of tgt (ont_id ex))"
  shows "existing_ontology tgt ro rts = Some ex" "final_name tgt ro rts = strip (ont_name ro)"
proof -
  have "ontology_exists (ontologies tgt) (terms tgt) rts (strip (ont_name ro)) = (True, Some ex)"
    using assms by (simp add: ontology_exists_Some strip_idem terms_of_def)
  then show "existing_ontology tgt ro rts = Some ex" "final_name tgt ro rts = strip (ont_name ro)"
    by (simp_all add: existing_ontology_def final_name_def find_ontology_found)
qed

text \<open>
  Claim C1, amended. The importer reuses an existing target ontology only if that
  ontology is the first target ontology bearing the final candidate name (the stripped
  snapshot name, or that name with a suffix \<open>(n)\<close>, \<open>n \<ge> 1\<close>) and every (name, color) pair
  of the snapshot's terms is a pair of its terms; it does reuse the first target
  ontology bearing the stripped snapshot name when the two sets of pairs are
  identical. When it reuses (and the ontology's creator is mapped) the import succeeds,
  the target's collections are unchanged (no ontology, term or relation is created),
  the snapshot ontology is mapped to the reused one and every snapshot term is mapped
  to the first term of the reused ontology with the same name. When it does not reuse
  and succeeds, one ontology and one term per snapshot term are created.
\<close>

theorem import_ontology_reuse_condition:
  "(existing_ontology tgt ro rts = Some ex \<longrightarrow>
      find_first (filter (\<lambda>ont. ont_name ont = strip (final_name tgt ro rts)) (ontologies tgt))
        = Some ex \<and>
      (final_name tgt ro rts = strip (ont_name ro) \<or>
       (\<exists>n \<ge> 1. final_name tgt ro rts = strip (ont_name ro) @ str_of '' ('' @ py_str n @ str_of '')'')) \<and>
      term_pairs rts \<subseteq> term_pairs (terms_of tgt (ont_id ex))) \<and>
   (find_first (filter (\<lambda>ont. ont_name ont = strip (ont_name ro)) (ontologies tgt)) = Some ex \<and>
    term_pairs (terms_of tgt (ont_id ex)) = term_pairs rts \<longrightarrow>
      existing_ontology tgt ro rts = Some ex) \<and>
   (existing_ontology tgt ro rts = Some ex \<and> m (ont_user ro) = Some u \<longrightarrow>
      (\<exists>m'. import_ontology wod ro rts (m, tgt) =
               Inr (m', tgt\<lparr>calls := calls tgt @ [ConnectAs u, ConnectAdmin]\<rparr>) \<and>
         (ont_id ro \<notin> term_id ` set rts \<longrightarrow> m' (ont_id ro) = Some (ont_id ex)) \<and>
         (distinct (map term_id rts) \<longrightarrow>
            (\<forall>rt \<in> set rts. \<exists>t.
               find_first (filter (\<lambda>t. term_name t = term_name rt) (terms_of tgt (ont_id ex)))
                 = Some t \<and>
               m' (term_id rt) = Some (term_id t))))) \<and>
   (existing_ontology tgt ro rts = None \<and> import_ontology wod ro rts (m, tgt) = Inr (m', tgt') \<longrightarrow>
      length (ontologies tgt') = Suc (length (ontologies tgt)) \<and>
      length (terms tgt') = length (terms tgt) + length rts)"
proof (intro conjI impI)
  assume ex: "existing_ontology tgt ro rts = Some ex"
  from find_ontology_existing [OF ex]
  show "find_first (filter (\<lambda>ont. ont_name ont = strip (final_name tgt ro rts)) (ontologies tgt))
        = Some ex"
    and "final_name tgt ro rts = strip (ont_name ro) \<or>
       (\<exists>n \<ge> 1. final_name tgt ro rts = strip (ont_name ro) @ str_of '' ('' @ py_str n @ str_of '')'')"
    and "term_pairs rts \<subseteq> term_pairs (terms_of tgt (ont_id ex))"
    by (simp_all add: suffixed_def)
next
  assume "find_first (filter (\<lambda>ont. ont_name ont = strip (ont_name ro)) (ontologies tgt)) = Some ex \<and>
    term_pairs (terms_of tgt (ont_id ex)) = term_pairs rts"
  then show "existing_ontology tgt ro rts = Some ex"
    by (intro existing_ontology_same_name) auto
next
  assume a: "existing_ontology tgt ro rts = Some ex \<and> m (ont_user ro) = Some u"
  let ?kvs = "map (\<lambda>rt. (term_id rt, term_id (the (find_first
               (filter (\<lambda>t. term_name t = term_name rt) (terms_of tgt (ont_id ex))))))) rts"
  let ?m' = "setitems (setitem m (ont_id ro) (ont_id ex)) ?kvs"
  have names: "\<forall>rt \<in> set rts. \<exists>t \<in> set (terms_of tgt (ont_id ex)). term_name t = term_name rt"
    using a find_ontology_existing(2) [of tgt ro rts ex] by (intro term_pairs_names) auto
  have fst_kvs: "map fst ?kvs = map term_id rts" by (simp add: comp_def)
  show "\<exists>m'. import_ontology wod ro rts (m, tgt) =
               Inr (m', tgt\<lparr>calls := calls tgt @ [ConnectAs u, ConnectAdmin]\<rparr>) \<and>
         (ont_id ro \<notin> term_id ` set rts \<longrightarrow> m' (ont_id ro) = Some (ont_id ex)) \<and>
         (distinct (map term_id rts) \<longrightarrow>
            (\<forall>rt \<in> set rts. \<exists>t.
               find_first (filter (\<lambda>t. term_name t = term_name rt) (terms_of tgt (ont_id ex)))
                 = Some t \<and>
               m' (term_id rt) = Some (term_id t)))"
  proof (intro exI [of _ ?m'] conjI impI ballI)
    show "import_ontology wod ro rts (m, tgt) =
               Inr (?m', tgt\<lparr>calls := calls tgt @ [ConnectAs u, ConnectAdmin]\<rparr>)"
      using a by (intro ontology_reused) auto
  next
    assume "ont_id ro \<notin> term_id ` set rts"
    then have "ont_id ro \<notin> fst ` set ?kvs" by (simp add: image_image)
    then show "?m' (ont_id ro) = Some (ont_id ex)"
      by (simp add: setitems_other setitem_def)
  next
    fix rt
    assume d: "distinct (map term_id rts)" and rt: "rt \<in> set rts"
    from names rt obtain t where
      t: "find_first (filter (\<lambda>t. term_name t = term_name rt) (terms_of tgt (ont_id ex))) = Some t"
      by (cases "find_first (filter (\<lambda>t. term_name t = term_name rt) (terms_of tgt (ont_id ex)))")
        (auto simp: find_first_filter_None)
    have "(term_id rt, term_id t) \<in> set ?kvs" using rt t by force
    moreover have "distinct (map fst ?kvs)" using d by (simp only: fst_kvs)
    ultimately have "?m' (term_id rt) = Some (term_id t)" by (intro setitems_distinct)
    with t show "\<exists>t. find_first (filter (\<lambda>t. term_name t = term_name rt)
        (terms_of tgt (ont_id ex))) = Some t \<and> ?m' (term_id rt) = Some (term_id t)"
      by blast
  qed
next
  assume a: "existing_ontology tgt ro rts = None \<and>
    import_ontology wod ro rts (m, tgt) = Inr (m', tgt')"
  then have ex: "existing_ontology tgt ro rts = None"
    and ok: "import_ontology wod ro rts (m, tgt) = Inr (m', tgt')" by simp_all
  from ontology_created [OF ex ok] obtain saved created where
    "ontologies tgt' = ontologies tgt @ [saved]"
    "terms tgt' = terms tgt @ created"
    "list_all2 (\<lambda>rt c. term_name c = term_name rt \<and> term_color c = term_color rt \<and>
                 term_parent c = None \<and> m' (term_id rt) \<noteq> None) rts created"
    by blast
  then show "length (ontologies tgt') = Suc (length (ontologies tgt))"
    "length (terms tgt') = length (terms tgt) + length rts"
    by (auto dest: list_all2_lengthD)
qed

theorem import_ontology_reuse_condition_witness:
  "existing_ontology example_target_renamed example_remote_ontology example_remote_terms =
     Some \<lparr>ont_id = 62, ont_name = str_of ''O (1)'', ont_user = 40, ont_created = None,
           ont_updated = None\<rparr> \<and>
   fst (projr (import_ontology False example_remote_ontology example_remote_terms
      ([4 \<mapsto> 40], example_target_renamed))) 6 = Some 62 \<and>
   fst (projr (import_ontology False example_remote_ontology example_remote_terms
      ([4 \<mapsto> 40], example_target_renamed))) 11 = Some 63 \<and>
   fst (projr (import_ontology False example_remote_ontology example_remote_terms
      ([4 \<mapsto> 40], example_target_renamed))) 12 = Some 64 \<and>
   existing_ontology example_target example_remote_ontology (take 1 example_remote_terms) =
     Some \<lparr>ont_id = 60, ont_name = str_of ''O'', ont_user = 40, ont_created = None,
           ont_updated = None\<rparr> \<and>
   existing_ontology example_target example_remote_ontology example_remote_terms = None \<and>
   map ont_name (ontologies (snd (projr (import_ontology False example_remote_ontology
      example_remote_terms ([4 \<mapsto> 40], example_target))))) = [str_of ''O'', str_of ''O (1)'']"
  using import_ontology_reuse_condition [where tgt = example_target_renamed
      and ro = example_remote_ontology and rts = example_remote_terms and wod = False
      and m = "[4 \<mapsto> 40]" and u = 40
      and ex = "\<lparr>ont_id = 62, ont_name = str_of ''O (1)'', ont_user = 40, ont_created = None,
           ont_updated = None\<rparr>"]
    import_ontology_reuse_condition [where tgt = example_target
      and ro = example_remote_ontology and rts = "take 1 example_remote_terms" and wod = False
      and m = "[4 \<mapsto> 40]" and u = 40
      and ex = "\<lparr>ont_id = 60, ont_name = str_of ''O'', ont_user = 40, ont_created = None,
           ont_updated = None\<rparr>"]
    import_ontology_reuse_condition [where tgt = example_target
      and ro = example_remote_ontology and rts = example_remote_terms and wod = False
      and m = "[4 \<mapsto> 40]"
      and m' = "fst (projr (import_ontology False example_remote_ontology example_remote_terms
      ([4 \<mapsto> 40], example_target)))"
      and tgt' = "snd (projr (import_ontology False example_remote_ontology example_remote_terms
      ([4 \<mapsto> 40], example_target)))"]
  by (simp add: example_defs ontology_eval terms_of_def term_pairs_def)






lemma import_ontology_user:
  assumes "import_ontology wod ro rts (m, tgt) = Inr s"
  shows "\<exists>u. m (ont_user ro) = Some u"
proof (cases "m (ont_user ro)")
  case None
  obtain name ex where "find_ontology (ontologies tgt) (terms tgt) rts
      (strip (ont_name ro)) (strip (ont_name ro)) 1 = (name, ex)"
    by (cases "find_ontology (ontologies tgt) (terms tgt) rts
      (strip (ont_name ro)) (strip (ont_name ro)) 1") auto
  with None have "import_ontology wod ro rts (m, tgt) = Inl (KeyError (ont_user ro))"
    by (simp add: import_ontology_def getitem_def)
  with assms show ?thesis by simp
next
  case (Some u)
  then show ?thesis by blast
qed








section \<open>The keys of the identifier mapping over a run\<close>

lemma dom_setitem: "dom (setitem m k v) = insert k (dom m)"
  by (simp add: setitem_def)

lemma dom_setitems: "dom m \<subseteq> dom (setitems m kvs)"
proof (induction m kvs rule: setitems.induct)
  case (1 m)
  then show ?case by simp
next
  case (2 m k v kvs)
  then show ?case by (auto simp: dom_setitem)
qed

lemma import_users_dom: "dom m \<subseteq> dom (fst (import_users rnd wod fetched rus (m, tgt)))"
proof (induction rus arbitrary: m tgt)
  case Nil
  then show ?case by simp
next
  case (Cons ru rest)
  show ?case
  proof (cases "find_first (filter (\<lambda>u. user_username u = user_username ru) fetched)")
    case (Some u)
    have "dom m \<subseteq> dom (setitem m (user_id ru) (user_id u))" by (auto simp: dom_setitem)
    also have "\<dots> \<subseteq> dom (fst (import_users rnd wod fetched rest
        (setitem m (user_id ru) (user_id u), tgt)))"
      by (rule Cons.IH)
    finally show ?thesis using Some by simp
  next
    case None
    obtain saved tgt' where s: "save_user tgt
       (if \<not> wod
        then (if user_password ru = None \<or> user_password ru = Some []
              then ru\<lparr>user_password := Some (rnd (next_id tgt))\<rparr> else ru)
               \<lparr>user_created := None, user_updated := None\<rparr>
        else (if user_password ru = None \<or> user_password ru = Some []
              then ru\<lparr>user_password := Some (rnd (next_id tgt))\<rparr> else ru)) = (saved, tgt')"
      by (cases "save_user tgt
       (if \<not> wod
        then (if user_password ru = None \<or> user_password ru = Some []
              then ru\<lparr>user_password := Some (rnd (next_id tgt))\<rparr> else ru)
               \<lparr>user_created := None, user_updated := None\<rparr>
        else (if user_password ru = None \<or> user_password ru = Some []
              then ru\<lparr>user_password := Some (rnd (next_id tgt))\<rparr> else ru))") auto
    have "dom m \<subseteq> dom (setitem m (user_id ru) (user_id saved))" by (auto simp: dom_setitem)
    also have "\<dots> \<subseteq> dom (fst (import_users rnd wod fetched rest
        (setitem m (user_id ru) (user_id saved), tgt')))"
      by (rule Cons.IH)
    finally show ?thesis using None s by (simp add: Let_def)
  qed
qed

lemma import_ontology_dom:
  assumes "import_ontology wod ro rts (m, tgt) = Inr (m', tgt')"
  shows "dom m \<subseteq> dom m'"
proof (cases "existing_ontology tgt ro rts")
  case None
  from ontology_created [OF None assms] obtain u saved created rels where
    "m (ont_user ro) = Some u" "ontologies tgt' = ontologies tgt @ [saved]"
    "terms tgt' = terms tgt @ created" "relation_terms tgt' = relation_terms tgt @ rels"
    and "m' = setitems (setitem m (ont_id ro) (next_id tgt))
            (zip (map term_id rts) (map term_id created))"
    by blast
  moreover have "dom m \<subseteq> dom (setitem m (ont_id ro) (next_id tgt))"
    by (auto simp: dom_setitem)
  ultimately show ?thesis using dom_setitems by blast
next
  case (Some ex)
  from import_ontology_user [OF assms] obtain u where u: "m (ont_user ro) = Some u" by blast
  from ontology_reused [where m = m and wod = wod, OF Some u] assms
  have "m' = setitems (setitem m (ont_id ro) (ont_id ex))
            (map (\<lambda>rt. (term_id rt, term_id (the (find_first
               (filter (\<lambda>t. term_name t = term_name rt) (terms_of tgt (ont_id ex))))))) rts)"
    by simp
  moreover have "dom m \<subseteq> dom (setitem m (ont_id ro) (ont_id ex))"
    by (auto simp: dom_setitem)
  ultimately show ?thesis using dom_setitems by blast
qed

lemma import_project_dom:
  assumes "import_project wod rus rp (m, tgt) = Inr (m', tgt')"
  shows "dom m \<subseteq> dom m'"
  using import_project_Inr [OF assms] by (auto simp: setitem_def)

lemma fix_image_instances_dom:
  "fix_image_instances env imgs (m, d, c) = Inr (m', d', c') \<Longrightarrow> dom m \<subseteq> dom m'"
proof (induction imgs arbitrary: m d c)
  case Nil
  then show ?case by simp
next
  case (Cons img rest)
  have "dom m \<subseteq> dom m'" if "fix_image_instances env rest (setitem (setitem m k v) k' v', d1, c1)
      = Inr (m', d', c')" for k v k' v' d1 c1
    using Cons.IH [OF that] by (auto simp: dom_setitem)
  with Cons.prems show ?case
    by (simp add: Let_def split: option.splits if_splits sum.splits)
qed

lemma import_images_dom:
  assumes "import_images env m ris = Inr (m', cs)"
  shows "dom m \<subseteq> dom m'"
  using assms
  by (auto simp: import_images_def split: sum.splits option.splits prod.splits
      dest: fix_image_instances_dom)

text \<open>
  Claim C3, as stated, fails: writing a key that is already mapped does not fail, it
  overwrites. On the dictionary itself, a second write of key 5 replaces the target 50
  by 51. In \<^verbatim>\<open>import_images\<close>, with two snapshot image instances of one abstract image 5
  whose uploads gave the abstract images 50 and 51 on the target, the last loop maps 5
  to 50 at its first turn and to 51 at its second, and the import ends without an
  exception.
\<close>

theorem id_mapping_remap_counterexample:
  "getitem (setitem (setitem id_mapping_init 5 50) 5 51) 5 = Inr 51 \<and>
   fst (projr (fix_image_instances
      (example_env 0 [example_image 100 50 (str_of ''a.tif''), example_image 101 51 (str_of ''b.tif'')])
      [example_image 100 50 (str_of ''a.tif'')]
      ([4 \<mapsto> 40, 7 \<mapsto> 70],
       [str_of ''a.tif'' \<mapsto> [example_image 10 5 (str_of ''a.tif'')], str_of ''b.tif'' \<mapsto> [example_image 11 5 (str_of ''b.tif'')]],
       []))) 5 = Some 50 \<and>
   fst (projr (fix_image_instances
      (example_env 0 [example_image 100 50 (str_of ''a.tif''), example_image 101 51 (str_of ''b.tif'')])
      [example_image 100 50 (str_of ''a.tif''), example_image 101 51 (str_of ''b.tif'')]
      ([4 \<mapsto> 40, 7 \<mapsto> 70],
       [str_of ''a.tif'' \<mapsto> [example_image 10 5 (str_of ''a.tif'')], str_of ''b.tif'' \<mapsto> [example_image 11 5 (str_of ''b.tif'')]],
       []))) 5 = Some 51 \<and>
   \<not> isl (import_images
      (example_env 0 [example_image 100 50 (str_of ''a.tif''), example_image 101 51 (str_of ''b.tif'')])
      [4 \<mapsto> 40, 7 \<mapsto> 70] [example_image 10 5 (str_of ''a.tif''), example_image 11 5 (str_of ''b.tif'')]) \<and>
   fst (projr (import_images
      (example_env 0 [example_image 100 50 (str_of ''a.tif''), example_image 101 51 (str_of ''b.tif'')])
      [4 \<mapsto> 40, 7 \<mapsto> 70] [example_image 10 5 (str_of ''a.tif''), example_image 11 5 (str_of ''b.tif'')])) 5
     = Some 51"
  by (simp add: getitem_def setitem_def id_mapping_init_def example_env_def example_image_def
      import_images_def wait_for_images.simps poll_init_def path_join_def replace_slash_def
      ascii_ignore_def find_first_def Let_def)

text \<open>
  Claim C3, amended. The identifier mapping is one dictionary keyed by the origin
  identifier alone. Its set of keys only grows over an import run: the user loop, the
  ontology import, the project import and the image import, which are the phases that
  write it, leave every key mapped that was mapped before (the annotation and metadata
  imports only read it). A write adds its key, and a write to a key that is already
  mapped succeeds and replaces the stored target.
\<close>

theorem id_mapping_keys_grow:
  "dom m \<subseteq> dom (fst (import_users rnd wod fetched rus (m, tgt))) \<and>
   (import_ontology wod ro rts (m, tgt) = Inr (m', tgt') \<longrightarrow> dom m \<subseteq> dom m') \<and>
   (import_project wod rus rp (m, tgt) = Inr (m', tgt') \<longrightarrow> dom m \<subseteq> dom m') \<and>
   (import_images env m ris = Inr (m', cs) \<longrightarrow> dom m \<subseteq> dom m') \<and>
   dom (setitem m k v) = insert k (dom m) \<and>
   getitem (setitem (setitem m k v) k v') k = Inr v'"
  using import_users_dom [of m rnd wod fetched rus tgt]
    import_ontology_dom [of wod ro rts m tgt m' tgt']
    import_project_dom [of wod rus rp m tgt m' tgt']
    import_images_dom [of env m ris m' cs]
  by (simp add: dom_setitem getitem_setitem)

theorem id_mapping_keys_grow_witness:
  "fst (import_users (\<lambda>i. (str_of ''secret'')) False (users example_target) example_remote_users
     ([6 \<mapsto> 60], example_target)) 6 = Some 60 \<and>
   fst (projr (import_ontology False example_remote_ontology example_remote_terms
     ([4 \<mapsto> 40], example_target))) 4 = Some 40 \<and>
   fst (projr (import_project False example_remote_users example_remote_project
     ([6 \<mapsto> 60, 4 \<mapsto> 40], example_target))) 6 = Some 60 \<and>
   fst (projr (import_images
      (example_env 0 [example_image 100 50 (str_of ''a.tif'')])
      [4 \<mapsto> 40, 7 \<mapsto> 70] [example_image 10 5 (str_of ''a.tif'')])) 7 = Some 70 \<and>
   getitem (setitem (setitem [4 \<mapsto> 40] 5 50) 5 51) 5 = Inr 51"
  using id_mapping_keys_grow [where m = "[6 \<mapsto> 60]" and rnd = "\<lambda>i. (str_of ''secret'')"
      and wod = False and fetched = "users example_target" and rus = example_remote_users
      and tgt = example_target and k = 5 and v = 50 and v' = 51]
    id_mapping_keys_grow [where m = "[4 \<mapsto> 40]" and wod = False
      and ro = example_remote_ontology and rts = example_remote_terms
      and tgt = example_target and k = 5 and v = 50 and v' = 51
      and m' = "fst (projr (import_ontology False example_remote_ontology example_remote_terms
        ([4 \<mapsto> 40], example_target)))"
      and tgt' = "snd (projr (import_ontology False example_remote_ontology example_remote_terms
        ([4 \<mapsto> 40], example_target)))"]
    id_mapping_keys_grow [where m = "[6 \<mapsto> 60, 4 \<mapsto> 40]" and wod = False
      and rus = example_remote_users and rp = example_remote_project
      and tgt = example_target and k = 5 and v = 50 and v' = 51
      and m' = "fst (projr (import_project False example_remote_users example_remote_project
        ([6 \<mapsto> 60, 4 \<mapsto> 40], example_target)))"
      and tgt' = "snd (projr (import_project False example_remote_users example_remote_project
        ([6 \<mapsto> 60, 4 \<mapsto> 40], example_target)))"]
    id_mapping_keys_grow [where m = "[4 \<mapsto> 40, 7 \<mapsto> 70]"
      and env = "example_env 0 [example_image 100 50 (str_of ''a.tif'')]"
      and ris = "[example_image 10 5 (str_of ''a.tif'')]" and k = 5 and v = 50 and v' = 51
      and m' = "fst (projr (import_images (example_env 0 [example_image 100 50 (str_of ''a.tif'')])
        [4 \<mapsto> 40, 7 \<mapsto> 70] [example_image 10 5 (str_of ''a.tif'')]))"
      and cs = "snd (projr (import_images (example_env 0 [example_image 100 50 (str_of ''a.tif'')])
        [4 \<mapsto> 40, 7 \<mapsto> 70] [example_image 10 5 (str_of ''a.tif'')]))"]
  by (simp add: example_defs example_env_def example_image_def ontology_eval
      import_images_def wait_for_images.simps poll_init_def path_join_def replace_slash_def
      ascii_ignore_def import_project_def available_name_def available_name_loop.simps
      save_project_def save_user_def)


end
